theory Spec2Isabelle
  imports Main "HOL-Library.Multiset" "HOL-Library.Sublist"
begin

section \<open>Python values used by the validators\<close>

text \<open>
  A Python \<^verbatim>\<open>str\<close> is a sequence of code points. It is modelled by \<^typ>\<open>string\<close>, one
  \<^typ>\<open>char\<close> per code point, so \<^const>\<open>length\<close> is Python's \<^verbatim>\<open>len\<close>. The type \<^typ>\<open>char\<close>
  has the code points 0 to 255; text with code points beyond that range is outside this
  development. In that range the only decimal digits of the Unicode database are
  \<^verbatim>\<open>0\<close> to \<^verbatim>\<open>9\<close>.

  The code runs on an unpinned CPython 3 interpreter. Two behaviours of the standard
  library that the validators reach differ between interpreter versions and settings;
  they are parameters of the model.
\<close>

record runtime =
  int_max_str_digits :: nat
    \<comment> \<open>\<^verbatim>\<open>sys.get_int_max_str_digits()\<close>: 4300 by default, 0 when the limit is switched off
        or the interpreter predates it\<close>
  csv_nul_error :: bool
    \<comment> \<open>whether \<^verbatim>\<open>csv.reader\<close> raises on a NUL character (interpreters before 3.11)\<close>

datatype value_error = ValueError
  \<comment> \<open>the exception of \<^verbatim>\<open>int()\<close> and of \<^verbatim>\<open>datetime.strptime\<close>\<close>

datatype csv_exn =
    CsvError string    \<comment> \<open>\<^verbatim>\<open>csv.Error\<close> with its message\<close>
  | StopIteration      \<comment> \<open>\<^verbatim>\<open>next\<close> on a reader with no record left\<close>

text \<open>\<^verbatim>\<open>str(e)\<close> of an exception of the reader.\<close>

fun str_exn :: "csv_exn \<Rightarrow> string" where
  "str_exn (CsvError m) = m"
| "str_exn StopIteration = []"

definition ord :: "char \<Rightarrow> nat" where
  "ord c = of_char c"

definition is_decimal :: "char \<Rightarrow> bool" where
  \<comment> \<open>\<^verbatim>\<open>Py_UNICODE_ISDECIMAL\<close>, also the class \<^verbatim>\<open>\d\<close> of \<^verbatim>\<open>re\<close> on a str pattern\<close>
  "is_decimal c = (48 \<le> ord c \<and> ord c \<le> 57)"

definition digit_value :: "char \<Rightarrow> nat" where
  "digit_value c = ord c - 48"

definition py_isspace :: "char \<Rightarrow> bool" where
  \<comment> \<open>\<^verbatim>\<open>Py_UNICODE_ISSPACE\<close>: the characters \<^verbatim>\<open>str.strip()\<close> removes\<close>
  "py_isspace c = ((9 \<le> ord c \<and> ord c \<le> 13) \<or> (28 \<le> ord c \<and> ord c \<le> 32)
                    \<or> ord c = 133 \<or> ord c = 160)"

definition int_isspace :: "char \<Rightarrow> bool" where
  \<comment> \<open>the characters \<^verbatim>\<open>int()\<close> skips around a literal: \<^verbatim>\<open>Py_ISSPACE\<close> on ASCII, and
      the Unicode spaces above 127, which \<^verbatim>\<open>int()\<close> first rewrites to a blank\<close>
  "int_isspace c = ((9 \<le> ord c \<and> ord c \<le> 13) \<or> ord c = 32 \<or> ord c = 133 \<or> ord c = 160)"

definition strip :: "string \<Rightarrow> string" where
  "strip s = rev (dropWhile py_isspace (rev (dropWhile py_isspace s)))"

subsection \<open>\<^verbatim>\<open>int(s)\<close> on a str, base 10\<close>

definition is_int_body_char :: "char \<Rightarrow> bool" where
  "is_int_body_char c = (is_decimal c \<or> c = CHR ''_'')"

fun double_underscore :: "string \<Rightarrow> bool" where
  "double_underscore (a # b # r) = ((a = CHR ''_'' \<and> b = CHR ''_'') \<or> double_underscore (b # r))"
| "double_underscore _ = False"

definition digits_value :: "string \<Rightarrow> nat" where
  "digits_value ds = foldl (\<lambda>a c. 10 * a + digit_value c) 0 ds"

definition split_sign :: "string \<Rightarrow> bool \<times> string" where
  "split_sign s = (case s of
       [] \<Rightarrow> (False, [])
     | c # r \<Rightarrow> if c = CHR ''+'' then (False, r)
                else if c = CHR ''-'' then (True, r)
                else (False, s))"

text \<open>
  \<^verbatim>\<open>PyLong_FromString\<close> with base 10: leading spaces, an optional sign, a run of digits
  and underscores (no underscore first, last or doubled), the digit limit, trailing
  spaces, then the end of the text. Every failure is a \<^verbatim>\<open>ValueError\<close>.
\<close>

definition py_int :: "runtime \<Rightarrow> string \<Rightarrow> value_error + int" where
  "py_int rt s =
    (let (neg, s2) = split_sign (dropWhile int_isspace s);
         body = takeWhile is_int_body_char s2;
         rest = dropWhile is_int_body_char s2;
         ds = filter is_decimal body
     in if body = [] \<or> hd body = CHR ''_'' \<or> last body = CHR ''_'' \<or> double_underscore body
          then Inl ValueError
        else if 640 < length ds \<and> 0 < int_max_str_digits rt \<and> int_max_str_digits rt < length ds
          then Inl ValueError
        else if dropWhile int_isspace rest \<noteq> [] then Inl ValueError
        else Inr (if neg then - int (digits_value ds) else int (digits_value ds)))"

subsection \<open>\<^verbatim>\<open>csv.reader\<close>, default dialect\<close>

text \<open>
  The reader of the \<^verbatim>\<open>excel\<close> dialect: delimiter comma, quote character \<^verbatim>\<open>"\<close>,
  doubled quotes, no escape character, not strict. The states are those of the
  interpreter's parser that this dialect can reach.
\<close>

datatype parser_state =
  START_RECORD | START_FIELD | IN_FIELD | IN_QUOTED_FIELD | QUOTE_IN_QUOTED_FIELD | EAT_CRNL

record reader =
  rfields :: "string list"
  field :: string
  state :: parser_state

definition field_limit :: nat where
  "field_limit = 131072"

definition CR :: char where "CR = CHR 0x0D"
definition LF :: char where "LF = CHR 0x0A"
definition NUL :: char where "NUL = CHR 0x00"

text \<open>
  The exceptions of the reader, with the message texts of CPython 3.11. Only the fact
  that a text is none of the validator's own messages is used below.
\<close>

definition newline_error :: csv_exn where
  "newline_error = CsvError (''new-line character seen in unquoted field - do you need to open the file with newline=''
       @ [CHR 0x27, CHR 0x27] @ ''?'')"

definition field_limit_error :: csv_exn where
  "field_limit_error = CsvError ''field larger than field limit (131072)''"

definition nul_error :: csv_exn where
  "nul_error = CsvError ''line contains NUL''"

definition parse_add_char :: "reader \<Rightarrow> char \<Rightarrow> csv_exn + reader" where
  "parse_add_char r c =
     (if field_limit \<le> length (field r) then Inl field_limit_error
      else Inr (r\<lparr>field := field r @ [c]\<rparr>))"

definition parse_save_field :: "reader \<Rightarrow> reader" where
  "parse_save_field r = r\<lparr>rfields := rfields r @ [field r], field := []\<rparr>"

definition set_state :: "parser_state \<Rightarrow> reader \<Rightarrow> reader" where
  "set_state st r = r\<lparr>state := st\<rparr>"

text \<open>One character of the line; \<open>None\<close> is the end-of-line marker the reader feeds last.\<close>

fun start_field_char :: "reader \<Rightarrow> char option \<Rightarrow> csv_exn + reader" where
  "start_field_char r None = Inr (set_state START_RECORD (parse_save_field r))"
| "start_field_char r (Some c) =
     (if c = LF \<or> c = CR then Inr (set_state EAT_CRNL (parse_save_field r))
      else if c = CHR 0x22 then Inr (set_state IN_QUOTED_FIELD r)
      else if c = CHR '','' then Inr (parse_save_field r)
      else map_sum id (set_state IN_FIELD) (parse_add_char r c))"

fun parse_process_char :: "reader \<Rightarrow> char option \<Rightarrow> csv_exn + reader" where
  "parse_process_char r c =
    (case state r of
       START_RECORD \<Rightarrow>
         (case c of
            None \<Rightarrow> Inr r
          | Some ch \<Rightarrow>
              if ch = LF \<or> ch = CR then Inr (set_state EAT_CRNL r)
              else start_field_char (set_state START_FIELD r) c)
     | START_FIELD \<Rightarrow> start_field_char r c
     | IN_FIELD \<Rightarrow>
         (case c of
            None \<Rightarrow> Inr (set_state START_RECORD (parse_save_field r))
          | Some ch \<Rightarrow>
              if ch = LF \<or> ch = CR then Inr (set_state EAT_CRNL (parse_save_field r))
              else if ch = CHR '','' then Inr (set_state START_FIELD (parse_save_field r))
              else parse_add_char r ch)
     | IN_QUOTED_FIELD \<Rightarrow>
         (case c of
            None \<Rightarrow> Inr r
          | Some ch \<Rightarrow>
              if ch = CHR 0x22 then Inr (set_state QUOTE_IN_QUOTED_FIELD r)
              else parse_add_char r ch)
     | QUOTE_IN_QUOTED_FIELD \<Rightarrow>
         (case c of
            None \<Rightarrow> Inr (set_state START_RECORD (parse_save_field r))
          | Some ch \<Rightarrow>
              if ch = CHR 0x22 then map_sum id (set_state IN_QUOTED_FIELD) (parse_add_char r ch)
              else if ch = CHR '','' then Inr (set_state START_FIELD (parse_save_field r))
              else if ch = LF \<or> ch = CR then Inr (set_state EAT_CRNL (parse_save_field r))
              else map_sum id (set_state IN_FIELD) (parse_add_char r ch))
     | EAT_CRNL \<Rightarrow>
         (case c of
            None \<Rightarrow> Inr (set_state START_RECORD r)
          | Some ch \<Rightarrow> if ch = LF \<or> ch = CR then Inr r else Inl newline_error))"

fun feed :: "runtime \<Rightarrow> reader \<Rightarrow> string \<Rightarrow> csv_exn + reader" where
  "feed rt r [] = parse_process_char r None"
| "feed rt r (c # cs) =
     (if c = NUL \<and> csv_nul_error rt then Inl nul_error
      else case parse_process_char r (Some c) of
             Inl e \<Rightarrow> Inl e
           | Inr r' \<Rightarrow> feed rt r' cs)"

text \<open>
  \<^verbatim>\<open>next(csv.reader([line]))\<close>: the reader is reset, fed the single line and the
  end-of-line marker. When the record is still open (inside a quoted field) it asks for a
  further line, finds none, and closes the record as it is.
\<close>

definition reader_next :: "runtime \<Rightarrow> string \<Rightarrow> csv_exn + string list" where
  "reader_next rt line =
     (case feed rt \<lparr>rfields = [], field = [], state = START_RECORD\<rparr> line of
        Inl e \<Rightarrow> Inl e
      | Inr r \<Rightarrow>
          if state r = START_RECORD then Inr (rfields r)
          else if field r \<noteq> [] \<or> state r = IN_QUOTED_FIELD then Inr (rfields (parse_save_field r))
          else Inl StopIteration)"

subsection \<open>\<^verbatim>\<open>re.match\<close> and \<^verbatim>\<open>datetime.strptime\<close>\<close>

text \<open>Matchers that consume a prefix of the text and return what is left.\<close>

definition match_digits :: "nat \<Rightarrow> string \<Rightarrow> string option" where
  \<comment> \<open>\<^verbatim>\<open>\d{n}\<close>\<close>
  "match_digits n s =
     (if n \<le> length s \<and> list_all is_decimal (take n s) then Some (drop n s) else None)"

fun match_char :: "char \<Rightarrow> string \<Rightarrow> string option" where
  "match_char a [] = None"
| "match_char a (c # s) = (if c = a then Some s else None)"

definition at_dollar :: "string \<Rightarrow> bool" where
  \<comment> \<open>\<^verbatim>\<open>$\<close> without \<^verbatim>\<open>re.MULTILINE\<close>: the end of the text, or just before a final newline\<close>
  "at_dollar s = (s = [] \<or> s = [LF])"

definition date_pattern_match :: "string \<Rightarrow> bool" where
  \<comment> \<open>\<^verbatim>\<open>re.match(r'^\d{4}/\d{2}/\d{2}$', s)\<close> is not \<^verbatim>\<open>None\<close>\<close>
  "date_pattern_match s =
     (case Option.bind (Option.bind (Option.bind (Option.bind (match_digits 4 s)
              (match_char CHR ''/'')) (match_digits 2)) (match_char CHR ''/'')) (match_digits 2) of
        None \<Rightarrow> False
      | Some r \<Rightarrow> at_dollar r)"

definition in_range :: "char \<Rightarrow> char \<Rightarrow> char \<Rightarrow> bool" where
  "in_range lo hi c = (ord lo \<le> ord c \<and> ord c \<le> ord hi)"

text \<open>
  The directives of \<^verbatim>\<open>_strptime\<close> as regular expressions:
  \<^verbatim>\<open>%m\<close> is \<^verbatim>\<open>1[0-2]|0[1-9]|[1-9]\<close> and \<^verbatim>\<open>%d\<close> is \<^verbatim>\<open>3[0-1]|[1-2]\d|0[1-9]|[1-9]| [1-9]\<close>.
  Each function lists the ways its directive matches a prefix, as (matched text, rest),
  in the order the alternatives are tried.
\<close>

definition alts_m :: "string \<Rightarrow> (string \<times> string) list" where
  "alts_m s =
     (case s of
        a # b # r \<Rightarrow>
          (if a = CHR ''1'' \<and> in_range CHR ''0'' CHR ''2'' b then [([a, b], r)] else []) @
          (if a = CHR ''0'' \<and> in_range CHR ''1'' CHR ''9'' b then [([a, b], r)] else []) @
          (if in_range CHR ''1'' CHR ''9'' a then [([a], b # r)] else [])
      | [a] \<Rightarrow> (if in_range CHR ''1'' CHR ''9'' a then [([a], [])] else [])
      | [] \<Rightarrow> [])"

definition alts_d :: "string \<Rightarrow> (string \<times> string) list" where
  "alts_d s =
     (case s of
        a # b # r \<Rightarrow>
          (if a = CHR ''3'' \<and> in_range CHR ''0'' CHR ''1'' b then [([a, b], r)] else []) @
          (if in_range CHR ''1'' CHR ''2'' a \<and> is_decimal b then [([a, b], r)] else []) @
          (if a = CHR ''0'' \<and> in_range CHR ''1'' CHR ''9'' b then [([a, b], r)] else []) @
          (if in_range CHR ''1'' CHR ''9'' a then [([a], b # r)] else []) @
          (if a = CHR '' '' \<and> in_range CHR ''1'' CHR ''9'' b then [([a, b], r)] else [])
      | [a] \<Rightarrow> (if in_range CHR ''1'' CHR ''9'' a then [([a], [])] else [])
      | [] \<Rightarrow> [])"

text \<open>
  The match of \<^verbatim>\<open>(?P<m>...)/(?P<d>...)\<close> at the start of the text: the first month
  alternative after which a slash and some day alternative follow, with the first such
  day alternative. The result is (month text, day text, rest).
\<close>

fun match_m_d :: "(string \<times> string) list \<Rightarrow> (string \<times> string \<times> string) option" where
  "match_m_d [] = None"
| "match_m_d ((m, r) # others) =
     (case match_char CHR ''/'' r of
        None \<Rightarrow> match_m_d others
      | Some r' \<Rightarrow>
          (case alts_d r' of
             [] \<Rightarrow> match_m_d others
           | (d, r'') # _ \<Rightarrow> Some (m, d, r'')))"

definition is_leap :: "nat \<Rightarrow> bool" where
  "is_leap y = (y mod 4 = 0 \<and> (y mod 100 \<noteq> 0 \<or> y mod 400 = 0))"

definition days_in_month :: "nat \<Rightarrow> nat \<Rightarrow> nat" where
  "days_in_month y m =
     (if m = 2 then (if is_leap y then 29 else 28)
      else if m = 4 \<or> m = 6 \<or> m = 9 \<or> m = 11 then 30 else 31)"

definition datetime_date :: "nat \<Rightarrow> nat \<Rightarrow> nat \<Rightarrow> value_error + nat \<times> nat \<times> nat" where
  \<comment> \<open>the constructor \<^verbatim>\<open>datetime.date(year, month, day)\<close> with its range checks\<close>
  "datetime_date y m d =
     (if 1 \<le> y \<and> y \<le> 9999 \<and> 1 \<le> m \<and> m \<le> 12 \<and> 1 \<le> d \<and> d \<le> days_in_month y m
      then Inr (y, m, d) else Inl ValueError)"

text \<open>
  \<^verbatim>\<open>datetime.strptime(s, '%Y/%m/%d')\<close>: the format is matched at the start of the text,
  text left over is an error, and the numbers must form a date.
\<close>

definition strptime :: "string \<Rightarrow> value_error + nat \<times> nat \<times> nat" where
  "strptime s =
     (case match_digits 4 s of
        None \<Rightarrow> Inl ValueError
      | Some r1 \<Rightarrow>
          (case match_char CHR ''/'' r1 of
             None \<Rightarrow> Inl ValueError
           | Some r2 \<Rightarrow>
               (case match_m_d (alts_m r2) of
                  None \<Rightarrow> Inl ValueError
                | Some (m, d, rest) \<Rightarrow>
                    if rest \<noteq> [] then Inl ValueError
                    else datetime_date (digits_value (take 4 s))
                           (digits_value (strip m)) (digits_value (strip d)))))"

section \<open>The record validator\<close>

text \<open>
  The dictionary a validator returns: \<^verbatim>\<open>{'valid': ..., 'error': ...}\<close>, the key
  \<^verbatim>\<open>error\<close> absent from an accepting one.
\<close>

record verdict =
  valid :: bool
  error :: "string option"

definition accept :: verdict where
  "accept = \<lparr>valid = True, error = None\<rparr>"

definition reject :: "string \<Rightarrow> verdict" where
  "reject msg = \<lparr>valid = False, error = Some msg\<rparr>"

text \<open>
  \<^verbatim>\<open>validate_csv_row\<close> of \<^verbatim>\<open>app.py\<close>, in two parts: the checks on the parsed row
  (lines 140 to 169), where each \<^verbatim>\<open>ValueError\<close> is caught on the spot, and the function
  itself, which parses the line and turns an exception of the parser into a rejecting
  verdict that carries the exception's text (lines 135 to 138, 171 and 172).
\<close>

definition validate_row :: "runtime \<Rightarrow> string list \<Rightarrow> verdict" where
  "validate_row rt row =
     (case row of
        [no, name, created_date] \<Rightarrow>
          if no = [] \<or> strip no = [] then reject ''no is null''
          else
            (case py_int rt no of
               Inl ValueError \<Rightarrow> reject ''no is not int''
             | Inr _ \<Rightarrow>
                 if 20 < length name then reject ''name exceeds 20 characters''
                 else if \<not> date_pattern_match created_date
                   then reject ''created_date is not YYYY/MM/DD format''
                 else
                   (case strptime created_date of
                      Inl ValueError \<Rightarrow> reject ''created_date is invalid date''
                    | Inr _ \<Rightarrow> accept))
      | _ \<Rightarrow> reject ''Invalid column count'')"

definition validate_csv_row :: "runtime \<Rightarrow> string \<Rightarrow> verdict" where
  "validate_csv_row rt l =
     (case reader_next rt l of
        Inl e \<Rightarrow> reject (str_exn e)
      | Inr row \<Rightarrow> validate_row rt row)"

text \<open>
  \<^verbatim>\<open>validate_csv_row\<close> of \<^verbatim>\<open>app_multithread.py\<close>: the same checks, and every
  verdict also carries the line under the key \<^verbatim>\<open>line\<close>.
\<close>

record verdict_line = verdict +
  line :: string

definition accept_line :: "string \<Rightarrow> verdict_line" where
  "accept_line l = \<lparr>valid = True, error = None, line = l\<rparr>"

definition reject_line :: "string \<Rightarrow> string \<Rightarrow> verdict_line" where
  "reject_line msg l = \<lparr>valid = False, error = Some msg, line = l\<rparr>"

definition validate_row_mt :: "runtime \<Rightarrow> string \<Rightarrow> string list \<Rightarrow> verdict_line" where
  "validate_row_mt rt l row =
     (case row of
        [no, name, created_date] \<Rightarrow>
          if no = [] \<or> strip no = [] then reject_line ''no is null'' l
          else
            (case py_int rt no of
               Inl ValueError \<Rightarrow> reject_line ''no is not int'' l
             | Inr _ \<Rightarrow>
                 if 20 < length name then reject_line ''name exceeds 20 characters'' l
                 else if \<not> date_pattern_match created_date
                   then reject_line ''created_date is not YYYY/MM/DD format'' l
                 else
                   (case strptime created_date of
                      Inl ValueError \<Rightarrow> reject_line ''created_date is invalid date'' l
                    | Inr _ \<Rightarrow> accept_line l))
      | _ \<Rightarrow> reject_line ''Invalid column count'' l)"

definition validate_csv_row_mt :: "runtime \<Rightarrow> string \<Rightarrow> verdict_line" where
  "validate_csv_row_mt rt l =
     (case reader_next rt l of
        Inl e \<Rightarrow> reject_line (str_exn e) l
      | Inr row \<Rightarrow> validate_row_mt rt l row)"

subsection \<open>The reasons of the specification\<close>

text \<open>
  The specification names five reasons for a rejection; the code reports a message text.
  The correspondence: the two messages about \<^verbatim>\<open>no\<close> are the reason
  \<^verbatim>\<open>id-null-or-nonint\<close>, the messages about \<^verbatim>\<open>name\<close> and \<^verbatim>\<open>created_date\<close> are
  \<^verbatim>\<open>label-too-long\<close>, \<^verbatim>\<open>date-format\<close> and \<^verbatim>\<open>date-invalid\<close>, and a line that is not a
  row of three columns, by its column count or by an exception of the parser whose text
  becomes the message, is \<^verbatim>\<open>malformed-row\<close>.
\<close>

datatype reason = MalformedRow | IdNullOrNonint | LabelTooLong | DateFormat | DateInvalid

definition reason_of_message :: "string \<Rightarrow> reason" where
  "reason_of_message m =
     (if m = ''no is null'' \<or> m = ''no is not int'' then IdNullOrNonint
      else if m = ''name exceeds 20 characters'' then LabelTooLong
      else if m = ''created_date is not YYYY/MM/DD format'' then DateFormat
      else if m = ''created_date is invalid date'' then DateInvalid
      else MalformedRow)"

definition reason :: "'a verdict_scheme \<Rightarrow> reason option" where
  "reason v = map_option reason_of_message (error v)"

text \<open>The rules on the three fields, as the conditions the code tests.\<close>

definition id_ok :: "runtime \<Rightarrow> string \<Rightarrow> bool" where
  "id_ok rt no = (strip no \<noteq> [] \<and> \<not> isl (py_int rt no))"

definition date_valid :: "string \<Rightarrow> bool" where
  "date_valid d = (\<not> isl (strptime d))"

section \<open>The handler of \<^verbatim>\<open>app.py\<close>\<close>

text \<open>
  The object store is outside the model. The body of the object arrives as the lines
  \<^verbatim>\<open>body.iter_lines()\<close> yields, each a byte string \<^typ>\<open>'b list\<close> without its
  terminator, and \<^verbatim>\<open>decode\<close> is \<^verbatim>\<open>bytes.decode('utf-8')\<close>, which raises on bytes that are
  not UTF-8. A fault leaves the handler as an exception; the handler re-raises it.

  An output stream is modelled by the list of the texts written to it, one per call of
  \<^verbatim>\<open>write\<close>: a line and its newline.
\<close>

datatype fault =
    UnicodeDecodeError
  | MaxWorkersError   \<comment> \<open>the \<^verbatim>\<open>ValueError\<close> of a thread pool created with no worker\<close>

record locals =
  valid_stream :: "string list"
  error_stream :: "string list"
  line_count :: nat
  valid_count :: nat
  error_count :: nat
  is_header :: bool

record response =
  valid_output :: "string list"   \<comment> \<open>what is uploaded under \<^verbatim>\<open>cleansed/\<close>\<close>
  error_output :: "string list"   \<comment> \<open>what is uploaded under \<^verbatim>\<open>error/\<close>\<close>
  total_lines :: nat
  valid_lines :: nat
  error_lines :: nat

definition write_line :: "string list \<Rightarrow> string \<Rightarrow> string list" where
  \<comment> \<open>\<^verbatim>\<open>stream.write((decoded_line + '\n').encode('utf-8'))\<close>\<close>
  "write_line stream l = stream @ [l @ [LF]]"

definition init_locals :: locals where
  "init_locals = \<lparr>valid_stream = [], error_stream = [], line_count = 0, valid_count = 0,
                   error_count = 0, is_header = True\<rparr>"

text \<open>The body of the \<^verbatim>\<open>for\<close> loop, lines 62 to 82.\<close>

definition process_line ::
  "runtime \<Rightarrow> ('b list \<Rightarrow> fault + string) \<Rightarrow> locals \<Rightarrow> 'b list \<Rightarrow> fault + locals" where
  "process_line rt decode st raw =
     (if raw = [] then Inr st
      else
        let st1 = st\<lparr>line_count := line_count st + 1\<rparr> in
        case decode raw of
          Inl e \<Rightarrow> Inl e
        | Inr decoded_line \<Rightarrow>
            if is_header st1 then
              Inr (st1\<lparr>valid_stream := write_line (valid_stream st1) decoded_line,
                        error_stream := write_line (error_stream st1) decoded_line,
                        is_header := False\<rparr>)
            else if valid (validate_csv_row rt decoded_line) then
              Inr (st1\<lparr>valid_stream := write_line (valid_stream st1) decoded_line,
                        valid_count := valid_count st1 + 1\<rparr>)
            else
              Inr (st1\<lparr>error_stream := write_line (error_stream st1) decoded_line,
                        error_count := error_count st1 + 1\<rparr>))"

fun process_lines ::
  "runtime \<Rightarrow> ('b list \<Rightarrow> fault + string) \<Rightarrow> locals \<Rightarrow> 'b list list \<Rightarrow> fault + locals" where
  "process_lines rt decode st [] = Inr st"
| "process_lines rt decode st (raw # raws) =
     (case process_line rt decode st raw of
        Inl e \<Rightarrow> Inl e
      | Inr st' \<Rightarrow> process_lines rt decode st' raws)"

definition respond :: "'a locals_scheme \<Rightarrow> response" where
  "respond st = \<lparr>valid_output = valid_stream st, error_output = error_stream st,
                  total_lines = line_count st, valid_lines = valid_count st,
                  error_lines = error_count st\<rparr>"

definition lambda_handler ::
  "runtime \<Rightarrow> ('b list \<Rightarrow> fault + string) \<Rightarrow> 'b list list \<Rightarrow> fault + response" where
  "lambda_handler rt decode body =
     (case process_lines rt decode init_locals body of
        Inl e \<Rightarrow> Inl e
      | Inr st \<Rightarrow> Inr (respond st))"

section \<open>The handler of \<^verbatim>\<open>app_multithread.py\<close>\<close>

definition MAX_WORKERS :: nat where
  "MAX_WORKERS = 4"

definition BATCH_SIZE :: nat where
  "BATCH_SIZE = 1000"

text \<open>\<^verbatim>\<open>process_batch\<close>, lines 83 to 103: the loop appends to one of two lists.\<close>

definition process_batch_step ::
  "runtime \<Rightarrow> string list \<times> string list \<Rightarrow> string \<Rightarrow> string list \<times> string list" where
  "process_batch_step rt acc l =
     (let result = validate_csv_row_mt rt l
      in if valid result then (fst acc @ [line result], snd acc)
         else (fst acc, snd acc @ [line result]))"

definition process_batch :: "runtime \<Rightarrow> string list \<Rightarrow> string list \<times> string list" where
  "process_batch rt batch = foldl (process_batch_step rt) ([], []) batch"

text \<open>
  \<^verbatim>\<open>batch_generator\<close>, lines 106 to 121, on the list of the items its iterator will
  yield: it takes slices until one is empty.
\<close>

function batch_generator :: "'a list \<Rightarrow> nat \<Rightarrow> 'a list list" where
  "batch_generator xs batch_size =
     (if take batch_size xs = [] then []
      else take batch_size xs # batch_generator (drop batch_size xs) batch_size)"
  by pat_completeness auto
termination
  by (relation "measure (\<lambda>(xs, batch_size). length xs)") auto

text \<open>
  The generator \<^verbatim>\<open>decoded_lines\<close>, lines 173 to 176, as the list of what it yields: the
  non-empty lines decoded, or the fault of the first line that does not decode.
\<close>

fun decoded_lines :: "('b list \<Rightarrow> fault + string) \<Rightarrow> 'b list list \<Rightarrow> fault + string list" where
  "decoded_lines decode [] = Inr []"
| "decoded_lines decode (raw # raws) =
     (if raw = [] then decoded_lines decode raws
      else case decode raw of
             Inl e \<Rightarrow> Inl e
           | Inr d \<Rightarrow> (case decoded_lines decode raws of
                         Inl e \<Rightarrow> Inl e
                       | Inr ds \<Rightarrow> Inr (d # ds)))"

text \<open>
  The state of the scheduler: the local variables of the handler, the dictionary
  \<^verbatim>\<open>futures\<close> as the list of the batches in flight with their numbers, in the order of
  submission, and the batches the generator has still to yield.
\<close>

record sched = locals +
  futures :: "(nat \<times> string list) list"
  batch_count :: nat
  batches :: "string list list"

definition submit :: "string list \<Rightarrow> sched \<Rightarrow> sched" where
  \<comment> \<open>\<^verbatim>\<open>futures[executor.submit(process_batch, batch)] = batch_count; batch_count += 1\<close>\<close>
  "submit batch st =
     st\<lparr>futures := futures st @ [(batch_count st, batch)], batch_count := batch_count st + 1\<rparr>"

text \<open>
  The first loop, lines 188 to 195: \<open>k\<close> rounds, each submitting the next batch, ended
  early when the generator is exhausted.
\<close>

fun initial_fill :: "nat \<Rightarrow> sched \<Rightarrow> sched" where
  "initial_fill 0 st = st"
| "initial_fill (Suc k) st =
     (case batches st of
        [] \<Rightarrow> st
      | batch # rest \<Rightarrow> initial_fill k (submit batch (st\<lparr>batches := rest\<rparr>)))"

text \<open>The sink, lines 205 to 214: two loops over the lines of a result.\<close>

definition write_valid :: "'a locals_scheme \<Rightarrow> string \<Rightarrow> 'a locals_scheme" where
  "write_valid st l =
     st\<lparr>valid_stream := write_line (valid_stream st) l,
        valid_count := valid_count st + 1, line_count := line_count st + 1\<rparr>"

definition write_error :: "'a locals_scheme \<Rightarrow> string \<Rightarrow> 'a locals_scheme" where
  "write_error st l =
     st\<lparr>error_stream := write_line (error_stream st) l,
        error_count := error_count st + 1, line_count := line_count st + 1\<rparr>"

definition ingest :: "string list \<times> string list \<Rightarrow> 'a locals_scheme \<Rightarrow> 'a locals_scheme" where
  "ingest result st = foldl write_error (foldl write_valid st (fst result)) (snd result)"

definition pop_future :: "nat \<Rightarrow> sched \<Rightarrow> sched" where
  \<comment> \<open>\<^verbatim>\<open>futures.pop(future)\<close> for the future at position \<open>i\<close>\<close>
  "pop_future i st = st\<lparr>futures := take i (futures st) @ drop (Suc i) (futures st)\<rparr>"

text \<open>
  Which future \<^verbatim>\<open>as_completed\<close> yields first depends on the timing of the worker
  threads. A schedule is the list of these choices, one per result consumed: the number
  \<open>c\<close> selects the future at position \<open>c mod k\<close> among the \<open>k\<close> in flight, and past the
  end of the list it is the oldest one.
\<close>

definition pick :: "nat list \<Rightarrow> nat \<Rightarrow> nat" where
  "pick schedule k = (case schedule of [] \<Rightarrow> 0 | c # _ \<Rightarrow> c mod k)"

definition consume :: "runtime \<Rightarrow> nat \<Rightarrow> sched \<Rightarrow> sched" where
  \<comment> \<open>lines 201 to 214: the future at position \<open>i\<close> leaves the dictionary and the sink takes its result\<close>
  "consume rt i st = ingest (process_batch rt (snd (futures st ! i))) (pop_future i st)"

definition submit_next :: "sched \<Rightarrow> sched" where
  \<comment> \<open>lines 221 to 227\<close>
  "submit_next st =
     (case batches st of
        [] \<Rightarrow> st
      | batch # rest \<Rightarrow> submit batch (st\<lparr>batches := rest\<rparr>))"

text \<open>The \<^verbatim>\<open>while futures\<close> loop, lines 198 to 229.\<close>

function consume_loop :: "runtime \<Rightarrow> nat list \<Rightarrow> sched \<Rightarrow> sched" where
  "consume_loop rt schedule st =
     (if futures st = [] then st
      else consume_loop rt (tl schedule)
             (submit_next (consume rt (pick schedule (length (futures st))) st)))"
  by pat_completeness auto

lemma foldl_write_valid_more [simp]:
  "futures (foldl write_valid st ls) = futures st"
  "batch_count (foldl write_valid st ls) = batch_count st"
  "batches (foldl write_valid st ls) = batches st"
  by (induction ls arbitrary: st) (simp_all add: write_valid_def)

lemma foldl_write_error_more [simp]:
  "futures (foldl write_error st ls) = futures st"
  "batch_count (foldl write_error st ls) = batch_count st"
  "batches (foldl write_error st ls) = batches st"
  by (induction ls arbitrary: st) (simp_all add: write_error_def)

lemma ingest_more [simp]:
  "futures (ingest res st) = futures st"
  "batch_count (ingest res st) = batch_count st"
  "batches (ingest res st) = batches st"
  by (simp_all add: ingest_def)

lemma pick_less: "0 < k \<Longrightarrow> pick schedule k < k"
  by (simp add: pick_def split: list.splits)

lemma consume_futures:
  "i < length (futures st) \<Longrightarrow> length (futures (consume rt i st)) = length (futures st) - 1"
  by (simp add: consume_def pop_future_def)

lemma consume_batches [simp]: "batches (consume rt i st) = batches st"
  by (simp add: consume_def pop_future_def)

lemma submit_next_measure:
  "length (batches (submit_next st)) + length (futures (submit_next st))
     = length (batches st) + length (futures st)"
  by (simp add: submit_next_def submit_def split: list.splits)

termination consume_loop
proof (relation "measure (\<lambda>(rt, schedule, st). length (batches st) + length (futures st))")
  show "wf (measure (\<lambda>(rt, schedule, st). length (batches st) + length (futures st)))"
    by simp
next
  fix rt :: runtime and schedule :: "nat list" and st :: sched
  assume ne: "futures st \<noteq> []"
  let ?i = "pick schedule (length (futures st))"
  from ne have "?i < length (futures st)"
    by (simp add: pick_less)
  then have "length (futures (consume rt ?i st)) = length (futures st) - 1"
    by (rule consume_futures)
  with ne show "((rt, tl schedule, submit_next (consume rt ?i st)), (rt, schedule, st))
        \<in> measure (\<lambda>(rt, schedule, st). length (batches st) + length (futures st))"
    by (simp add: submit_next_measure)
qed

text \<open>
  \<^verbatim>\<open>lambda_handler\<close> of \<^verbatim>\<open>app_multithread.py\<close>, lines 152 to 229 and the response, with
  the two settings as parameters. The first line the stream yields is taken as the
  header when it is not empty (lines 162 to 168); the lines after it feed the batches.
\<close>

definition header_step ::
  "('b list \<Rightarrow> fault + string) \<Rightarrow> 'b list list \<Rightarrow> fault + locals" where
  "header_step decode body =
     (case body of
        [] \<Rightarrow> Inr init_locals
      | header_line # _ \<Rightarrow>
          if header_line = [] then Inr init_locals
          else case decode header_line of
                 Inl e \<Rightarrow> Inl e
               | Inr decoded_header \<Rightarrow>
                   Inr (init_locals\<lparr>valid_stream := write_line (valid_stream init_locals) decoded_header,
                                     error_stream := write_line (error_stream init_locals) decoded_header,
                                     line_count := line_count init_locals + 1\<rparr>))"

definition start_sched :: "locals \<Rightarrow> string list list \<Rightarrow> sched" where
  "start_sched st bs = locals.extend st \<lparr>futures = [], batch_count = 0, batches = bs\<rparr>"

definition lambda_handler_mt_with ::
  "nat \<Rightarrow> nat \<Rightarrow> runtime \<Rightarrow> ('b list \<Rightarrow> fault + string) \<Rightarrow> nat list \<Rightarrow> 'b list list
     \<Rightarrow> fault + response" where
  "lambda_handler_mt_with max_workers batch_size rt decode schedule body =
     (case header_step decode body of
        Inl e \<Rightarrow> Inl e
      | Inr st \<Rightarrow>
          if max_workers = 0 then Inl MaxWorkersError
          else case decoded_lines decode (tl body) of
                 Inl e \<Rightarrow> Inl e
               | Inr ds \<Rightarrow>
                   Inr (respond (consume_loop rt schedule
                          (initial_fill (max_workers * 2)
                             (start_sched st (batch_generator ds batch_size))))))"

definition lambda_handler_mt ::
  "runtime \<Rightarrow> ('b list \<Rightarrow> fault + string) \<Rightarrow> nat list \<Rightarrow> 'b list list \<Rightarrow> fault + response" where
  "lambda_handler_mt = lambda_handler_mt_with MAX_WORKERS BATCH_SIZE"

subsection \<open>The scheduler step by step\<close>

text \<open>
  The same loops as a transition relation, for what holds at every moment of a run. The
  first component says where the handler stands: in the first loop with \<open>k\<close> rounds
  left, at the head of the \<^verbatim>\<open>while\<close> loop, or between the sink taking a result and the
  attempt to submit the next batch. Any future in flight may be the one that completes.
\<close>

datatype phase = Filling nat | Waiting | Ingested

inductive sched_step :: "runtime \<Rightarrow> phase \<times> sched \<Rightarrow> phase \<times> sched \<Rightarrow> bool" for rt where
  fill_submit:
    "batches st = batch # rest \<Longrightarrow>
     sched_step rt (Filling (Suc k), st) (Filling k, submit batch (st\<lparr>batches := rest\<rparr>))"
| fill_stop:
    "batches st = [] \<Longrightarrow> sched_step rt (Filling (Suc k), st) (Waiting, st)"
| fill_done:
    "sched_step rt (Filling 0, st) (Waiting, st)"
| take_result:
    "i < length (futures st) \<Longrightarrow> sched_step rt (Waiting, st) (Ingested, consume rt i st)"
| next_submit:
    "sched_step rt (Ingested, st) (Waiting, submit_next st)"

definition reachable :: "runtime \<Rightarrow> nat \<Rightarrow> sched \<Rightarrow> phase \<times> sched \<Rightarrow> bool" where
  "reachable rt max_workers st0 c = rtranclp (sched_step rt) (Filling (max_workers * 2), st0) c"

text \<open>
  The bound on the batches in flight, by where the handler stands: in the first loop the
  rounds left still fit under the bound, and after the sink has taken a result there is
  room for one more batch.
\<close>

fun in_flight_bound :: "nat \<Rightarrow> phase \<times> sched \<Rightarrow> bool" where
  "in_flight_bound m (Filling k, st) = (length (futures st) + k \<le> m)"
| "in_flight_bound m (Waiting, st) = (length (futures st) \<le> m)"
| "in_flight_bound m (Ingested, st) = (length (futures st) < m)"

section \<open>The stream as the specification describes it\<close>

text \<open>
  The lines of a stream that are not empty; the first of them is the header and the
  others are the data records.
\<close>

definition non_empty :: "'b list list \<Rightarrow> 'b list list" where
  "non_empty body = filter (\<lambda>raw. raw \<noteq> []) body"

definition accepted :: "runtime \<Rightarrow> string \<Rightarrow> bool" where
  "accepted rt l = valid (validate_csv_row rt l)"

definition with_newline :: "string \<Rightarrow> string" where
  "with_newline l = l @ [LF]"

text \<open>
  The id rule in the words of the specification: not empty once trimmed, and a base-10
  integer, that is an optional sign and decimal digits with nothing before or after.
\<close>

definition spec_base10_integer :: "string \<Rightarrow> bool" where
  "spec_base10_integer s = (snd (split_sign s) \<noteq> [] \<and> list_all is_decimal (snd (split_sign s)))"

definition spec_id_ok :: "string \<Rightarrow> bool" where
  "spec_id_ok no = (strip no \<noteq> [] \<and> spec_base10_integer (strip no))"

text \<open>
  The texts \<^verbatim>\<open>int()\<close> takes: spaces, an optional sign, groups of decimal digits joined
  by single underscores, spaces; and no more digits than the interpreter allows.
\<close>

definition grouped_digits :: "string \<Rightarrow> bool" where
  "grouped_digits body =
     (body \<noteq> [] \<and> list_all is_int_body_char body \<and> hd body \<noteq> CHR ''_''
        \<and> last body \<noteq> CHR ''_'' \<and> \<not> double_underscore body)"

definition int_literal :: "string \<Rightarrow> bool" where
  "int_literal s =
     (\<exists>pre sn body post. s = pre @ sn @ body @ post \<and> list_all int_isspace pre
         \<and> (sn = [] \<or> sn = ''+'' \<or> sn = ''-'') \<and> grouped_digits body
         \<and> list_all int_isspace post)"

definition within_digit_limit :: "runtime \<Rightarrow> string \<Rightarrow> bool" where
  "within_digit_limit rt s =
     (let n = length (filter is_decimal s)
      in n \<le> 640 \<or> int_max_str_digits rt = 0 \<or> n \<le> int_max_str_digits rt)"

section \<open>The predicate of \<^verbatim>\<open>app_duckdb.py\<close>\<close>

text \<open>
  The \<^verbatim>\<open>WHERE\<close> clause of lines 70 to 79 over a row of \<^verbatim>\<open>raw_data\<close>, whose three
  columns are texts or \<^verbatim>\<open>NULL\<close>. A condition of SQL is true, false or \<^verbatim>\<open>NULL\<close>
  (\<open>None\<close>); a row goes to \<^verbatim>\<open>valid_data\<close> when the clause is true and to
  \<^verbatim>\<open>error_data\<close> when its negation is true. The two casts belong to the query engine,
  which is not part of the repository: they are parameters.
\<close>

record engine =
  try_cast_integer :: "string \<Rightarrow> int option"
    \<comment> \<open>\<^verbatim>\<open>TRY_CAST(x AS INTEGER)\<close>, \<open>None\<close> for \<^verbatim>\<open>NULL\<close>\<close>
  try_cast_date :: "string \<Rightarrow> (nat \<times> nat \<times> nat) option"
    \<comment> \<open>\<^verbatim>\<open>TRY_CAST(x AS DATE)\<close> as year, month and day\<close>

definition sql_and :: "bool option \<Rightarrow> bool option \<Rightarrow> bool option" where
  "sql_and a b =
     (if a = Some False \<or> b = Some False then Some False
      else if a = Some True \<and> b = Some True then Some True
      else None)"

definition sql_not :: "bool option \<Rightarrow> bool option" where
  "sql_not a = map_option Not a"

definition sql_trim :: "string \<Rightarrow> string" where
  \<comment> \<open>\<^verbatim>\<open>TRIM\<close>: space separators are removed at both ends\<close>
  "sql_trim s =
     rev (dropWhile (\<lambda>c. ord c = 32 \<or> ord c = 160) (rev (dropWhile (\<lambda>c. ord c = 32 \<or> ord c = 160) s)))"

definition sql_replace_slash :: "string \<Rightarrow> string" where
  \<comment> \<open>\<^verbatim>\<open>REPLACE(s, '/', '-')\<close>\<close>
  "sql_replace_slash s = map (\<lambda>c. if c = CHR ''/'' then CHR ''-'' else c) s"

text \<open>
  The class \<^verbatim>\<open>[0-9]\<close> of the clause is the ten ASCII digits, where the class
  \<^verbatim>\<open>\d\<close> of the validator is every decimal digit of Unicode. The two agree on the
  code points of \<^typ>\<open>char\<close> and differ beyond them; nothing below rests on their
  agreement.
\<close>

definition in_0_9 :: "char \<Rightarrow> bool" where
  "in_0_9 c = in_range CHR ''0'' CHR ''9'' c"

definition regexp_matches_date :: "string \<Rightarrow> bool" where
  \<comment> \<open>\<^verbatim>\<open>REGEXP_MATCHES(s, '^[0-9]{4}/[0-9]{2}/[0-9]{2}$')\<close>; here \<^verbatim>\<open>$\<close> is the end of the text\<close>
  "regexp_matches_date s =
     (length s = 10 \<and> list_all in_0_9 (take 4 s) \<and> s ! 4 = CHR ''/''
        \<and> list_all in_0_9 (take 2 (drop 5 s)) \<and> s ! 7 = CHR ''/''
        \<and> list_all in_0_9 (drop 8 s))"

definition valid_predicate ::
  "engine \<Rightarrow> string option \<times> string option \<times> string option \<Rightarrow> bool option" where
  "valid_predicate eng row =
     (case row of (no, name, created_date) \<Rightarrow>
        sql_and (Some (no \<noteq> None))
       (sql_and (map_option (\<lambda>s. sql_trim s \<noteq> []) no)
       (sql_and (Some (Option.bind no (try_cast_integer eng) \<noteq> None))
       (sql_and (map_option (\<lambda>s. length s \<le> 20) name)
       (sql_and (map_option regexp_matches_date created_date)
                (Some (Option.bind (map_option sql_replace_slash created_date)
                         (try_cast_date eng) \<noteq> None)))))))"

definition in_valid_data :: "engine \<Rightarrow> string option \<times> string option \<times> string option \<Rightarrow> bool" where
  "in_valid_data eng row = (valid_predicate eng row = Some True)"

definition in_error_data :: "engine \<Rightarrow> string option \<times> string option \<times> string option \<Rightarrow> bool" where
  "in_error_data eng row = (sql_not (valid_predicate eng row) = Some True)"

text \<open>
  The type \<^verbatim>\<open>INTEGER\<close> of the engine is the signed integer of 32 bits; \<^verbatim>\<open>TRY_CAST\<close>
  gives \<^verbatim>\<open>NULL\<close> for a text whose value is outside this range.
\<close>

definition in_int32 :: "int \<Rightarrow> bool" where
  "in_int32 v = (- 2147483648 \<le> v \<and> v \<le> 2147483647)"

definition cpython_default :: runtime where
  "cpython_default = \<lparr>int_max_str_digits = 4300, csv_nul_error = False\<rparr>"

section \<open>Evaluating the validator\<close>

lemmas char_class_defs =
  ord_def is_decimal_def digit_value_def py_isspace_def int_isspace_def is_int_body_char_def
  in_range_def CR_def LF_def NUL_def

lemmas py_int_defs = py_int_def split_sign_def digits_value_def

lemmas csv_defs =
  reader_next_def parse_process_char.simps parse_add_char_def parse_save_field_def set_state_def
  field_limit_def

declare parse_process_char.simps [simp del]

lemmas date_defs =
  date_pattern_match_def match_digits_def at_dollar_def strptime_def alts_m_def alts_d_def
  datetime_date_def days_in_month_def is_leap_def strip_def digits_value_def

lemmas verdict_defs = accept_def reject_def reason_def reason_of_message_def

lemma reader_next_leap_2024:
  "reader_next rt ''007,ok,2024/02/29'' = Inr [''007'', ''ok'', ''2024/02/29'']"
  by (simp add: csv_defs char_class_defs)

lemma reader_next_leap_2023:
  "reader_next rt ''007,ok,2023/02/29'' = Inr [''007'', ''ok'', ''2023/02/29'']"
  by (simp add: csv_defs char_class_defs)

lemma py_int_007: "py_int rt ''007'' = Inr 7"
  by (simp add: py_int_defs char_class_defs)

lemma strptime_leap_2024: "strptime ''2024/02/29'' = Inr (2024, 2, 29)"
  by (simp add: date_defs char_class_defs)

lemma strptime_leap_2023: "strptime ''2023/02/29'' = Inl ValueError"
  by (simp add: date_defs char_class_defs)

lemma validate_row_leap_2024: "validate_row rt [''007'', ''ok'', ''2024/02/29''] = accept"
  by (simp add: validate_row_def py_int_007 strptime_leap_2024 date_defs char_class_defs)

lemma validate_row_leap_2023:
  "validate_row rt [''007'', ''ok'', ''2023/02/29''] = reject ''created_date is invalid date''"
  by (simp add: validate_row_def py_int_007 strptime_leap_2023 date_defs char_class_defs)

text \<open>
  C8. The record with id \<^verbatim>\<open>007\<close> and label \<^verbatim>\<open>ok\<close> is accepted when its day is
  \<^verbatim>\<open>2024/02/29\<close>, a leap day, and rejected with the reason \<^verbatim>\<open>date-invalid\<close> when its
  day is \<^verbatim>\<open>2023/02/29\<close>, which has the shape of a date and is none. This holds for the
  row and for the line that carries it.
\<close>

theorem C8_leap_day:
  "validate_row rt [''007'', ''ok'', ''2024/02/29''] = accept \<and>
   validate_csv_row rt ''007,ok,2024/02/29'' = accept \<and>
   valid (validate_csv_row rt ''007,ok,2024/02/29'') \<and>
   validate_row rt [''007'', ''ok'', ''2023/02/29''] = reject ''created_date is invalid date'' \<and>
   validate_csv_row rt ''007,ok,2023/02/29'' = reject ''created_date is invalid date'' \<and>
   \<not> valid (validate_csv_row rt ''007,ok,2023/02/29'') \<and>
   reason (validate_csv_row rt ''007,ok,2023/02/29'') = Some DateInvalid \<and>
   date_pattern_match ''2023/02/29''"
  by (simp add: validate_csv_row_def reader_next_leap_2024 reader_next_leap_2023
      validate_row_leap_2024 validate_row_leap_2023 verdict_defs date_defs char_class_defs)

section \<open>The order of the rules\<close>

lemma strip_Nil [simp]: "strip [] = []"
  by (simp add: strip_def)

lemma validate_row_three:
  "validate_row rt [no, name, d] =
     (if strip no = [] then reject ''no is null''
      else if isl (py_int rt no) then reject ''no is not int''
      else if 20 < length name then reject ''name exceeds 20 characters''
      else if \<not> date_pattern_match d then reject ''created_date is not YYYY/MM/DD format''
      else if \<not> date_valid d then reject ''created_date is invalid date''
      else accept)"
  by (auto simp: validate_row_def date_valid_def split: sum.splits value_error.splits)

lemma validate_row_count:
  "length row \<noteq> 3 \<Longrightarrow> validate_row rt row = reject ''Invalid column count''"
  by (auto simp add: validate_row_def split: list.splits)

lemma length_three: "length row = 3 \<Longrightarrow> row = [row ! 0, row ! 1, row ! 2]"
  by (cases row; cases "tl row"; cases "tl (tl row)") auto

lemma reason_validate_row:
  "reason (validate_row rt row) =
     (if length row \<noteq> 3 then Some MalformedRow
      else if \<not> id_ok rt (row ! 0) then Some IdNullOrNonint
      else if 20 < length (row ! 1) then Some LabelTooLong
      else if \<not> date_pattern_match (row ! 2) then Some DateFormat
      else if \<not> date_valid (row ! 2) then Some DateInvalid
      else None)"
proof (cases "length row = 3")
  case False
  then show ?thesis
    by (simp add: validate_row_count verdict_defs)
next
  case True
  then have "row = [row ! 0, row ! 1, row ! 2]"
    by (rule length_three)
  then have "validate_row rt row = validate_row rt [row ! 0, row ! 1, row ! 2]"
    by simp
  with True show ?thesis
    by (simp add: validate_row_three id_ok_def verdict_defs)
qed

lemma validate_row_mt_fields:
  "valid (validate_row_mt rt l row) = valid (validate_row rt row) \<and>
   error (validate_row_mt rt l row) = error (validate_row rt row) \<and>
   line (validate_row_mt rt l row) = l"
  by (simp add: validate_row_mt_def validate_row_def accept_def reject_def accept_line_def
      reject_line_def split: list.splits sum.splits value_error.splits)

lemma validate_csv_row_mt_fields:
  "valid (validate_csv_row_mt rt l) = valid (validate_csv_row rt l) \<and>
   error (validate_csv_row_mt rt l) = error (validate_csv_row rt l) \<and>
   line (validate_csv_row_mt rt l) = l"
  by (simp add: validate_csv_row_mt_def validate_csv_row_def validate_row_mt_fields
      reject_def reject_line_def split: sum.splits)

text \<open>
  C2. The reason of a verdict is that of the first rule that fails, in the order column
  count, id, label length, date format, date validity, whatever the later rules would
  say; the validator of \<^verbatim>\<open>app_multithread.py\<close> gives the same reason. A record whose
  label is longer than 20 characters and whose day does not have the date format is never
  given the reason \<^verbatim>\<open>date-format\<close>, and it is given \<^verbatim>\<open>label-too-long\<close> as soon as its id
  passes.
\<close>

theorem C2_rule_order:
  "reason (validate_row rt row) =
     (if length row \<noteq> 3 then Some MalformedRow
      else if \<not> id_ok rt (row ! 0) then Some IdNullOrNonint
      else if 20 < length (row ! 1) then Some LabelTooLong
      else if \<not> date_pattern_match (row ! 2) then Some DateFormat
      else if \<not> date_valid (row ! 2) then Some DateInvalid
      else None)
   \<and> reason (validate_row_mt rt l row) = reason (validate_row rt row)
   \<and> (reader_next rt l = Inr row \<longrightarrow> reason (validate_csv_row rt l) = reason (validate_row rt row))
   \<and> (20 < length name \<and> \<not> date_pattern_match d \<longrightarrow>
        reason (validate_row rt [no, name, d]) \<noteq> Some DateFormat
        \<and> (id_ok rt no \<longrightarrow> reason (validate_row rt [no, name, d]) = Some LabelTooLong))"
proof -
  have mt: "reason (validate_row_mt rt l row) = reason (validate_row rt row)"
    by (simp add: reason_def validate_row_mt_fields)
  have ln: "reader_next rt l = Inr row \<longrightarrow> reason (validate_csv_row rt l) = reason (validate_row rt row)"
    by (simp add: validate_csv_row_def)
  have both: "20 < length name \<and> \<not> date_pattern_match d \<longrightarrow>
        reason (validate_row rt [no, name, d]) \<noteq> Some DateFormat
        \<and> (id_ok rt no \<longrightarrow> reason (validate_row rt [no, name, d]) = Some LabelTooLong)"
    by (simp add: reason_validate_row)
  from reason_validate_row mt ln both show ?thesis
    by blast
qed

lemma id_ok_7: "id_ok rt ''7''"
  by (simp add: id_ok_def py_int_defs char_class_defs strip_def)

theorem C2_rule_order_witness:
  "reader_next cpython_default ''7,aaaaaaaaaaaaaaaaaaaaa,2024-02-29''
     = Inr [''7'', ''aaaaaaaaaaaaaaaaaaaaa'', ''2024-02-29'']
   \<and> reason (validate_csv_row cpython_default ''7,aaaaaaaaaaaaaaaaaaaaa,2024-02-29'')
       = reason (validate_row cpython_default [''7'', ''aaaaaaaaaaaaaaaaaaaaa'', ''2024-02-29''])
   \<and> reason (validate_row cpython_default [''7'', ''aaaaaaaaaaaaaaaaaaaaa'', ''2024-02-29''])
       = Some LabelTooLong"
proof -
  let ?l = "''7,aaaaaaaaaaaaaaaaaaaaa,2024-02-29''"
  let ?row = "[''7'', ''aaaaaaaaaaaaaaaaaaaaa'', ''2024-02-29'']"
  have r: "reader_next cpython_default ?l = Inr ?row"
    by (simp add: csv_defs char_class_defs)
  have h: "20 < length ''aaaaaaaaaaaaaaaaaaaaa'' \<and> \<not> date_pattern_match ''2024-02-29''"
    by (simp add: date_defs char_class_defs)
  note c = C2_rule_order [of cpython_default ?row ?l "''aaaaaaaaaaaaaaaaaaaaa''" "''2024-02-29''" "''7''"]
  from c r have a: "reason (validate_csv_row cpython_default ?l) = reason (validate_row cpython_default ?row)"
    by blast
  from c h id_ok_7 [of cpython_default]
  have b: "reason (validate_row cpython_default ?row) = Some LabelTooLong"
    by blast
  from r a b show ?thesis
    by blast
qed

lemma validate_row_cases:
  "(valid (validate_row rt row) \<and> error (validate_row rt row) = None)
   \<or> (\<not> valid (validate_row rt row) \<and> (\<exists>m. error (validate_row rt row) = Some m))"
  by (simp add: validate_row_def accept_def reject_def split: list.splits sum.splits value_error.splits)

text \<open>
  C9. When the id and the day of a record pass their rules, the record is accepted
  exactly when its label has at most 20 characters; the empty label is accepted.
\<close>

theorem C9_empty_label:
  assumes "id_ok rt no" and "date_pattern_match d" and "date_valid d"
  shows "validate_row rt [no, [], d] = accept
     \<and> valid (validate_row rt [no, name, d]) = (length name \<le> 20)"
  using assms by (auto simp add: validate_row_three id_ok_def accept_def reject_def)

lemma reader_next_empty_label:
  "reader_next rt ''1,,2024/01/01'' = Inr [''1'', [], ''2024/01/01'']"
  by (simp add: csv_defs char_class_defs)

theorem C9_empty_label_witness:
  "id_ok cpython_default ''1'' \<and> date_pattern_match ''2024/01/01'' \<and> date_valid ''2024/01/01''
   \<and> validate_row cpython_default [''1'', [], ''2024/01/01''] = accept
   \<and> validate_csv_row cpython_default ''1,,2024/01/01'' = accept"
proof -
  have a: "id_ok cpython_default ''1''"
    by (simp add: id_ok_def py_int_defs char_class_defs strip_def)
  have b: "date_pattern_match ''2024/01/01''"
    by (simp add: date_defs char_class_defs)
  have c: "date_valid ''2024/01/01''"
    by (simp add: date_valid_def date_defs char_class_defs)
  from C9_empty_label [OF a b c, of "[]"]
  have d: "validate_row cpython_default [''1'', [], ''2024/01/01''] = accept" ..
  then have "validate_csv_row cpython_default ''1,,2024/01/01'' = accept"
    by (simp add: validate_csv_row_def reader_next_empty_label)
  with a b c d show ?thesis
    by blast
qed

section \<open>Lines the parser refuses\<close>

lemma parse_add_char_error: "parse_add_char r c = Inl e \<Longrightarrow> e = field_limit_error"
  by (simp add: parse_add_char_def split: if_splits)

lemma start_field_char_error: "start_field_char r c = Inl e \<Longrightarrow> e = field_limit_error"
  by (cases c) (auto simp: map_sum_def split: if_splits sum.splits dest: parse_add_char_error)

lemma parse_process_char_error:
  "parse_process_char r c = Inl e \<Longrightarrow> e = field_limit_error \<or> e = newline_error"
  by (cases "state r"; cases c)
     (auto simp: parse_process_char.simps map_sum_def split: if_splits sum.splits
           dest: parse_add_char_error start_field_char_error)

lemma feed_error:
  "feed rt r l = Inl e \<Longrightarrow> e = field_limit_error \<or> e = newline_error \<or> e = nul_error"
proof (induction l arbitrary: r)
  case Nil
  then show ?case
    using parse_process_char_error [of r None e] by auto
next
  case (Cons c cs)
  show ?case
  proof (cases "c = NUL \<and> csv_nul_error rt")
    case True
    with Cons.prems show ?thesis by simp
  next
    case False
    show ?thesis
    proof (cases "parse_process_char r (Some c)")
      case (Inl e')
      with False Cons.prems have "e' = e" by auto
      with Inl parse_process_char_error [of r "Some c" e'] show ?thesis by auto
    next
      case (Inr r')
      with False Cons.prems have "feed rt r' cs = Inl e" by auto
      then show ?thesis by (rule Cons.IH)
    qed
  qed
qed

lemma end_of_line_state:
  "parse_process_char r None = Inr r' \<Longrightarrow> state r' = START_RECORD \<or> state r' = IN_QUOTED_FIELD"
  by (cases "state r") (auto simp: parse_process_char.simps set_state_def parse_save_field_def)

lemma feed_state:
  "feed rt r l = Inr r' \<Longrightarrow> state r' = START_RECORD \<or> state r' = IN_QUOTED_FIELD"
proof (induction l arbitrary: r)
  case Nil
  then show ?case
    using end_of_line_state [of r r'] by simp
next
  case (Cons c cs)
  then show ?case
    by (auto split: if_splits sum.splits)
qed

lemma reader_next_error:
  assumes "reader_next rt l = Inl e"
  shows "e = field_limit_error \<or> e = newline_error \<or> e = nul_error"
proof (cases "feed rt \<lparr>rfields = [], field = [], state = START_RECORD\<rparr> l")
  case (Inl e')
  with assms have "e' = e"
    by (simp add: reader_next_def)
  with Inl show ?thesis
    by (auto dest: feed_error)
next
  case (Inr r)
  from feed_state [OF Inr] assms Inr show ?thesis
    by (auto simp: reader_next_def split: if_splits)
qed

lemma reason_of_reader_error:
  "e = field_limit_error \<or> e = newline_error \<or> e = nul_error \<Longrightarrow>
   reason_of_message (str_exn e) = MalformedRow"
  by (auto simp: reason_of_message_def field_limit_error_def newline_error_def nul_error_def)

lemma reason_exhaust:
  "r = MalformedRow \<or> r = IdNullOrNonint \<or> r = LabelTooLong \<or> r = DateFormat \<or> r = DateInvalid"
  by (cases r) simp_all

text \<open>
  C5. The validator returns a verdict for every line. When the parser raises on the
  line, the verdict rejects, its message is the text of the exception and its reason is
  \<^verbatim>\<open>malformed-row\<close>. An accepting verdict has no reason and a rejecting one has exactly
  one, among the five; no other exception arises in the body, whose checks catch theirs.
  The validator of \<^verbatim>\<open>app_multithread.py\<close> agrees.
\<close>

theorem C5_verdict_always:
  "(reader_next rt l = Inl e \<longrightarrow>
      validate_csv_row rt l = reject (str_exn e) \<and> \<not> valid (validate_csv_row rt l)
      \<and> reason (validate_csv_row rt l) = Some MalformedRow)
   \<and> (valid (validate_csv_row rt l) = (reason (validate_csv_row rt l) = None))
   \<and> (valid (validate_csv_row rt l) = (error (validate_csv_row rt l) = None))
   \<and> reason (validate_csv_row rt l) \<in>
        {None, Some MalformedRow, Some IdNullOrNonint, Some LabelTooLong, Some DateFormat,
         Some DateInvalid}
   \<and> valid (validate_csv_row_mt rt l) = valid (validate_csv_row rt l)
   \<and> reason (validate_csv_row_mt rt l) = reason (validate_csv_row rt l)"
proof -
  have a: "reader_next rt l = Inl e \<longrightarrow>
      validate_csv_row rt l = reject (str_exn e) \<and> \<not> valid (validate_csv_row rt l)
      \<and> reason (validate_csv_row rt l) = Some MalformedRow"
  proof
    assume r: "reader_next rt l = Inl e"
    then have v: "validate_csv_row rt l = reject (str_exn e)"
      by (simp add: validate_csv_row_def)
    from reader_next_error [OF r] have "reason_of_message (str_exn e) = MalformedRow"
      by (rule reason_of_reader_error)
    with v show "validate_csv_row rt l = reject (str_exn e) \<and> \<not> valid (validate_csv_row rt l)
      \<and> reason (validate_csv_row rt l) = Some MalformedRow"
      by (simp add: reject_def reason_def)
  qed
  have c: "valid (validate_csv_row rt l) = (error (validate_csv_row rt l) = None)"
  proof (cases "reader_next rt l")
    case (Inl e')
    then show ?thesis
      by (simp add: validate_csv_row_def reject_def)
  next
    case (Inr row)
    with validate_row_cases [of rt row] show ?thesis
      by (auto simp: validate_csv_row_def)
  qed
  then have b: "valid (validate_csv_row rt l) = (reason (validate_csv_row rt l) = None)"
    by (simp add: reason_def)
  have d: "reason (validate_csv_row rt l) \<in>
        {None, Some MalformedRow, Some IdNullOrNonint, Some LabelTooLong, Some DateFormat,
         Some DateInvalid}"
    using reason_exhaust by (cases "reason (validate_csv_row rt l)") auto
  have f: "valid (validate_csv_row_mt rt l) = valid (validate_csv_row rt l)"
    by (simp add: validate_csv_row_mt_fields)
  have g: "reason (validate_csv_row_mt rt l) = reason (validate_csv_row rt l)"
    by (simp add: reason_def validate_csv_row_mt_fields)
  from a b c d f g show ?thesis
    by blast
qed

lemma reader_next_bare_cr: "reader_next rt (''a'' @ [CR] @ ''b'') = Inl newline_error"
  by (simp add: csv_defs char_class_defs)

theorem C5_verdict_always_witness:
  "reader_next cpython_default (''a'' @ [CR] @ ''b'') = Inl newline_error
   \<and> validate_csv_row cpython_default (''a'' @ [CR] @ ''b'') = reject (str_exn newline_error)
   \<and> \<not> valid (validate_csv_row cpython_default (''a'' @ [CR] @ ''b''))
   \<and> reason (validate_csv_row cpython_default (''a'' @ [CR] @ ''b'')) = Some MalformedRow"
  using C5_verdict_always [of cpython_default "''a'' @ [CR] @ ''b''" newline_error]
    reader_next_bare_cr [of cpython_default]
  by blast

section \<open>The texts the id rule takes\<close>

lemma body_char_not_space: "is_int_body_char c \<Longrightarrow> \<not> int_isspace c"
  by (auto simp: is_int_body_char_def int_isspace_def is_decimal_def ord_def)

lemma space_not_decimal: "int_isspace c \<Longrightarrow> \<not> is_decimal c"
  by (auto simp: int_isspace_def is_decimal_def)

lemma takeWhile_body_spaces: "list_all int_isspace post \<Longrightarrow> takeWhile is_int_body_char post = []"
  by (cases post) (auto dest: body_char_not_space)

lemma dropWhile_body_spaces: "list_all int_isspace post \<Longrightarrow> dropWhile is_int_body_char post = post"
  by (cases post) (auto dest: body_char_not_space)

lemma filter_decimal_spaces: "list_all int_isspace xs \<Longrightarrow> filter is_decimal xs = []"
  by (induction xs) (auto dest: space_not_decimal)

lemma split_sign_decomp:
  "\<exists>sn. s = sn @ snd (split_sign s) \<and> (sn = [] \<or> sn = ''+'' \<or> sn = ''-'')"
  by (cases s) (auto simp: split_sign_def)

lemma filter_decimal_sign:
  "sn = [] \<or> sn = ''+'' \<or> sn = ''-'' \<Longrightarrow> filter is_decimal sn = []"
  by (auto simp: is_decimal_def ord_def)

lemma grouped_digits_hd:
  assumes "grouped_digits body"
  shows "\<exists>c r. body = c # r \<and> is_decimal c"
proof (cases body)
  case Nil
  with assms show ?thesis by (simp add: grouped_digits_def)
next
  case (Cons c r)
  with assms have "is_int_body_char c" and "c \<noteq> CHR ''_''"
    by (simp_all add: grouped_digits_def)
  with Cons show ?thesis
    by (simp add: is_int_body_char_def)
qed

lemma decimal_not_sign: "is_decimal c \<Longrightarrow> c \<noteq> CHR ''+'' \<and> c \<noteq> CHR ''-'' \<and> \<not> int_isspace c"
  by (auto simp: is_decimal_def int_isspace_def ord_def)

lemma py_int_ok:
  "(\<not> isl (py_int rt s)) =
     (grouped_digits (takeWhile is_int_body_char (snd (split_sign (dropWhile int_isspace s))))
      \<and> \<not> (640 < length (filter is_decimal
                 (takeWhile is_int_body_char (snd (split_sign (dropWhile int_isspace s)))))
            \<and> 0 < int_max_str_digits rt
            \<and> int_max_str_digits rt < length (filter is_decimal
                 (takeWhile is_int_body_char (snd (split_sign (dropWhile int_isspace s))))))
      \<and> list_all int_isspace
           (dropWhile is_int_body_char (snd (split_sign (dropWhile int_isspace s)))))"
proof -
  have tw: "list_all is_int_body_char (takeWhile is_int_body_char xs)" for xs :: string
    by (induction xs) auto
  have dw: "(dropWhile int_isspace xs = []) = list_all int_isspace xs" for xs :: string
    by (simp add: list_all_iff)
  show ?thesis
    unfolding py_int_def Let_def split_def grouped_digits_def
    by (simp only: dw [symmetric] tw) auto
qed

lemma literal_scan:
  assumes s: "s = pre @ sn @ body @ post"
    and pre: "list_all int_isspace pre"
    and sn: "sn = [] \<or> sn = ''+'' \<or> sn = ''-''"
    and body: "grouped_digits body"
    and post: "list_all int_isspace post"
  shows "snd (split_sign (dropWhile int_isspace s)) = body @ post"
    and "takeWhile is_int_body_char (body @ post) = body"
    and "dropWhile is_int_body_char (body @ post) = post"
    and "filter is_decimal s = filter is_decimal body"
proof -
  from grouped_digits_hd [OF body] obtain c r where c: "body = c # r" "is_decimal c"
    by blast
  from pre have "dropWhile int_isspace s = dropWhile int_isspace (sn @ body @ post)"
    unfolding s by (intro dropWhile_append2) (simp add: list_all_iff)
  also from sn c have "\<dots> = sn @ body @ post"
    by (auto dest: decimal_not_sign simp: int_isspace_def ord_def)
  finally have d: "dropWhile int_isspace s = sn @ body @ post" .
  from sn c show "snd (split_sign (dropWhile int_isspace s)) = body @ post"
    unfolding d by (auto simp: split_sign_def dest: decimal_not_sign)
  from body have all: "list_all is_int_body_char body"
    by (simp add: grouped_digits_def)
  then show "takeWhile is_int_body_char (body @ post) = body"
    by (simp add: takeWhile_append2 list_all_iff takeWhile_body_spaces [OF post])
  from all show "dropWhile is_int_body_char (body @ post) = post"
    by (simp add: dropWhile_append2 list_all_iff dropWhile_body_spaces [OF post])
  from pre sn post show "filter is_decimal s = filter is_decimal body"
    unfolding s by (simp add: filter_decimal_spaces filter_decimal_sign)
qed

lemma py_int_literal:
  "(\<not> isl (py_int rt s)) = (int_literal s \<and> within_digit_limit rt s)"
proof
  assume ok: "\<not> isl (py_int rt s)"
  let ?s1 = "dropWhile int_isspace s"
  let ?s2 = "snd (split_sign ?s1)"
  let ?body = "takeWhile is_int_body_char ?s2"
  let ?post = "dropWhile is_int_body_char ?s2"
  let ?pre = "takeWhile int_isspace s"
  from ok have g: "grouped_digits ?body" and p: "list_all int_isspace ?post"
    and lim: "\<not> (640 < length (filter is_decimal ?body) \<and> 0 < int_max_str_digits rt
                \<and> int_max_str_digits rt < length (filter is_decimal ?body))"
    by (simp_all add: py_int_ok)
  obtain sn where sg: "?s1 = sn @ ?s2" "sn = [] \<or> sn = ''+'' \<or> sn = ''-''"
    using split_sign_decomp [of ?s1] by blast
  have pre: "list_all int_isspace ?pre"
    by (induction s) auto
  have "s = ?pre @ ?s1"
    by simp
  also have "\<dots> = ?pre @ sn @ ?body @ ?post"
    using sg(1) by simp
  finally have s: "s = ?pre @ sn @ ?body @ ?post" .
  then have lit: "int_literal s"
    unfolding int_literal_def using pre sg(2) g p by blast
  from literal_scan(4) [OF s pre sg(2) g p] lim have "within_digit_limit rt s"
    by (auto simp: within_digit_limit_def Let_def)
  with lit show "int_literal s \<and> within_digit_limit rt s" ..
next
  assume "int_literal s \<and> within_digit_limit rt s"
  then obtain pre sn body post where s: "s = pre @ sn @ body @ post"
    and pre: "list_all int_isspace pre" and sn: "sn = [] \<or> sn = ''+'' \<or> sn = ''-''"
    and body: "grouped_digits body" and post: "list_all int_isspace post"
    and lim: "within_digit_limit rt s"
    unfolding int_literal_def by blast
  note sc = literal_scan [OF s pre sn body post]
  from lim show "\<not> isl (py_int rt s)"
    by (auto simp: py_int_ok sc body post within_digit_limit_def Let_def)
qed

lemma space_is_py_space: "int_isspace c \<Longrightarrow> py_isspace c"
  by (auto simp: int_isspace_def py_isspace_def)

lemma strip_Nil_iff: "(strip s = []) = list_all py_isspace s"
proof -
  have "(\<forall>x\<in>set (dropWhile py_isspace xs). py_isspace x) = (\<forall>x\<in>set xs. py_isspace x)"
    for xs :: string
    by (induction xs) auto
  then show ?thesis
    by (simp add: strip_def list_all_iff)
qed

lemma int_literal_not_blank:
  assumes "int_literal s"
  shows "strip s \<noteq> []"
proof -
  from assms obtain pre sn body post where s: "s = pre @ sn @ body @ post"
    and body: "grouped_digits body"
    unfolding int_literal_def by blast
  from grouped_digits_hd [OF body] obtain c r where c: "body = c # r" "is_decimal c"
    by blast
  then have "\<not> py_isspace c"
    by (auto simp: is_decimal_def py_isspace_def)
  with s c show ?thesis
    by (auto simp: strip_Nil_iff)
qed

lemma id_ok_literal: "id_ok rt no = (int_literal no \<and> within_digit_limit rt no)"
  using int_literal_not_blank [of no] by (auto simp: id_ok_def py_int_literal)

text \<open>
  C3, as amended. In a row of three fields the id passes exactly when it is a text that
  \<^verbatim>\<open>int()\<close> takes: spaces, an optional sign, decimal digits in groups joined by
  single underscores, spaces, and no more digits than the interpreter allows. Any other
  id gives a rejecting verdict with the reason \<^verbatim>\<open>id-null-or-nonint\<close>, and an id that
  passes never gives that reason.
\<close>

theorem C3_id_rule:
  "id_ok rt no = (int_literal no \<and> within_digit_limit rt no)
   \<and> (reason (validate_row rt [no, name, d]) = Some IdNullOrNonint)
       = (\<not> (int_literal no \<and> within_digit_limit rt no))
   \<and> (reason (validate_row rt [no, name, d]) = Some IdNullOrNonint
        \<longrightarrow> \<not> valid (validate_row rt [no, name, d]))"
proof -
  have a: "(reason (validate_row rt [no, name, d]) = Some IdNullOrNonint) = (\<not> id_ok rt no)"
    by (simp add: reason_validate_row)
  have b: "reason (validate_row rt [no, name, d]) = Some IdNullOrNonint
        \<longrightarrow> \<not> valid (validate_row rt [no, name, d])"
    using validate_row_cases [of rt "[no, name, d]"] by (auto simp: reason_def)
  from a b id_ok_literal [of rt no] show ?thesis
    by blast
qed

lemma int_literal_grouped: "int_literal ''1_0''"
proof -
  have g: "grouped_digits ''1_0''"
    by (simp add: grouped_digits_def char_class_defs)
  show ?thesis
    unfolding int_literal_def
    by (rule exI [of _ "[]"], rule exI [of _ "[]"], rule exI [of _ "''1_0''"],
        rule exI [of _ "[]"]) (simp add: g)
qed

theorem C3_id_rule_witness:
  "reason (validate_row cpython_default [''1_0'', ''ok'', ''2024/02/29'']) \<noteq> Some IdNullOrNonint
   \<and> id_ok cpython_default ''1_0''"
proof -
  have w: "within_digit_limit cpython_default ''1_0''"
    by (simp add: within_digit_limit_def)
  from C3_id_rule [of cpython_default "''1_0''" "''ok''" "''2024/02/29''"] int_literal_grouped w
  show ?thesis
    by blast
qed

text \<open>
  The id \<^verbatim>\<open>1_0\<close> is not a base-10 integer in the words of the specification, and the
  record that carries it is accepted.
\<close>

lemma reader_next_grouped:
  "reader_next rt ''1_0,ok,2024/02/29'' = Inr [''1_0'', ''ok'', ''2024/02/29'']"
  by (simp add: csv_defs char_class_defs)

theorem C3_underscore_counterexample:
  "valid (validate_csv_row cpython_default ''1_0,ok,2024/02/29'')
   \<and> \<not> spec_id_ok ''1_0''"
proof -
  have "py_int cpython_default ''1_0'' = Inr 10"
    by (simp add: py_int_defs char_class_defs cpython_default_def)
  then have "validate_row cpython_default [''1_0'', ''ok'', ''2024/02/29''] = accept"
    by (simp add: validate_row_def strptime_leap_2024 date_pattern_match_def match_digits_def
        at_dollar_def strip_def char_class_defs)
  then have "valid (validate_csv_row cpython_default ''1_0,ok,2024/02/29'')"
    by (simp add: validate_csv_row_def reader_next_grouped accept_def)
  moreover have "\<not> spec_id_ok ''1_0''"
    by (simp add: spec_id_ok_def spec_base10_integer_def split_sign_def strip_def char_class_defs)
  ultimately show ?thesis ..
qed

section \<open>The two outputs of \<^verbatim>\<open>app.py\<close>\<close>

lemma accepted_mt: "valid (validate_csv_row_mt rt l) = accepted rt l"
  by (simp add: accepted_def validate_csv_row_mt_fields)

lemma decoded_lines_length:
  "decoded_lines decode body = Inr ds \<Longrightarrow> length ds = length (non_empty body)"
  by (induction body arbitrary: ds) (auto simp: non_empty_def split: if_splits sum.splits)

lemma process_lines_data:
  assumes "\<not> is_header st"
  shows "process_lines rt decode st body =
     (case decoded_lines decode body of
        Inl e \<Rightarrow> Inl e
      | Inr ds \<Rightarrow>
          Inr (st\<lparr>valid_stream := valid_stream st @ map with_newline (filter (accepted rt) ds),
                 error_stream := error_stream st @ map with_newline (filter (\<lambda>l. \<not> accepted rt l) ds),
                 line_count := line_count st + length ds,
                 valid_count := valid_count st + length (filter (accepted rt) ds),
                 error_count := error_count st + length (filter (\<lambda>l. \<not> accepted rt l) ds)\<rparr>))"
  using assms
proof (induction body arbitrary: st)
  case Nil
  then show ?case by simp
next
  case (Cons raw raws)
  show ?case
  proof (cases "raw = []")
    case True
    with Cons show ?thesis
      by (simp add: process_line_def)
  next
    case False
    show ?thesis
    proof (cases "decode raw")
      case (Inl e)
      with False show ?thesis
        by (simp add: process_line_def)
    next
      case (Inr d)
      show ?thesis
      proof (cases "accepted rt d")
        case True
        let ?st = "st\<lparr>line_count := line_count st + 1,
                      valid_stream := write_line (valid_stream st) d,
                      valid_count := valid_count st + 1\<rparr>"
        from True False Inr Cons.prems
        have "process_line rt decode st raw = Inr ?st"
          by (simp add: process_line_def accepted_def Let_def)
        moreover have "\<not> is_header ?st"
          using Cons.prems by simp
        ultimately show ?thesis
          using True False Inr Cons.IH [of ?st]
          by (simp add: write_line_def with_newline_def split: sum.splits)
      next
        case no: False
        let ?st = "st\<lparr>line_count := line_count st + 1,
                      error_stream := write_line (error_stream st) d,
                      error_count := error_count st + 1\<rparr>"
        from no False Inr Cons.prems
        have "process_line rt decode st raw = Inr ?st"
          by (simp add: process_line_def accepted_def Let_def)
        moreover have "\<not> is_header ?st"
          using Cons.prems by simp
        ultimately show ?thesis
          using no False Inr Cons.IH [of ?st]
          by (simp add: write_line_def with_newline_def split: sum.splits)
      qed
    qed
  qed
qed

lemma process_lines_header:
  assumes "is_header st"
  shows "process_lines rt decode st body =
     (case decoded_lines decode body of
        Inl e \<Rightarrow> Inl e
      | Inr [] \<Rightarrow> Inr st
      | Inr (h # ds) \<Rightarrow>
          Inr (st\<lparr>valid_stream := valid_stream st @ with_newline h # map with_newline (filter (accepted rt) ds),
                 error_stream := error_stream st @ with_newline h # map with_newline (filter (\<lambda>l. \<not> accepted rt l) ds),
                 line_count := line_count st + 1 + length ds,
                 valid_count := valid_count st + length (filter (accepted rt) ds),
                 error_count := error_count st + length (filter (\<lambda>l. \<not> accepted rt l) ds),
                 is_header := False\<rparr>))"
  using assms
proof (induction body)
  case Nil
  then show ?case by simp
next
  case (Cons raw raws)
  show ?case
  proof (cases "raw = []")
    case True
    with Cons show ?thesis
      by (simp add: process_line_def)
  next
    case False
    show ?thesis
    proof (cases "decode raw")
      case (Inl e)
      with False show ?thesis
        by (simp add: process_line_def)
    next
      case (Inr h)
      let ?st = "st\<lparr>line_count := line_count st + 1,
                    valid_stream := write_line (valid_stream st) h,
                    error_stream := write_line (error_stream st) h,
                    is_header := False\<rparr>"
      from False Inr Cons.prems have "process_line rt decode st raw = Inr ?st"
        by (simp add: process_line_def Let_def)
      moreover have "\<not> is_header ?st"
        by simp
      ultimately show ?thesis
        using False Inr process_lines_data [of ?st rt decode raws]
        by (simp add: write_line_def with_newline_def split: sum.splits)
    qed
  qed
qed

lemma lambda_handler_eq:
  "lambda_handler rt decode body =
     (case decoded_lines decode body of
        Inl e \<Rightarrow> Inl e
      | Inr ds \<Rightarrow>
          Inr \<lparr>valid_output = map with_newline (take 1 ds @ filter (accepted rt) (drop 1 ds)),
               error_output = map with_newline (take 1 ds @ filter (\<lambda>l. \<not> accepted rt l) (drop 1 ds)),
               total_lines = length ds,
               valid_lines = length (filter (accepted rt) (drop 1 ds)),
               error_lines = length (filter (\<lambda>l. \<not> accepted rt l) (drop 1 ds))\<rparr>)"
  by (simp add: lambda_handler_def process_lines_header init_locals_def respond_def
      split: sum.splits list.splits)

section \<open>Batches\<close>

declare batch_generator.simps [simp del]
declare consume_loop.simps [simp del]

lemma process_batch_foldl:
  "foldl (process_batch_step rt) acc batch =
     (fst acc @ filter (accepted rt) batch, snd acc @ filter (\<lambda>l. \<not> accepted rt l) batch)"
  by (induction batch arbitrary: acc)
     (simp_all add: process_batch_step_def Let_def accepted_mt validate_csv_row_mt_fields)

lemma process_batch_filter:
  "process_batch rt batch = (filter (accepted rt) batch, filter (\<lambda>l. \<not> accepted rt l) batch)"
  by (simp add: process_batch_def process_batch_foldl)

lemma batch_generator_Nil: "take n xs = [] \<Longrightarrow> batch_generator xs n = []"
  by (subst batch_generator.simps) simp

lemma batch_generator_Cons:
  "take n xs \<noteq> [] \<Longrightarrow> batch_generator xs n = take n xs # batch_generator (drop n xs) n"
  by (subst batch_generator.simps) simp

lemma batch_generator_concat: "0 < n \<Longrightarrow> concat (batch_generator xs n) = xs"
proof (induction xs n rule: batch_generator.induct)
  case (1 xs n)
  show ?case
  proof (cases "take n xs = []")
    case True
    with 1 batch_generator_Nil [OF True] show ?thesis
      by simp
  next
    case False
    with 1 batch_generator_Cons [OF False] show ?thesis
      by simp
  qed
qed

lemma batch_generator_bounds:
  "b \<in> set (batch_generator xs n) \<Longrightarrow> b \<noteq> [] \<and> length b \<le> n"
proof (induction xs n rule: batch_generator.induct)
  case (1 xs n)
  show ?case
  proof (cases "take n xs = []")
    case True
    with 1 batch_generator_Nil [OF True] show ?thesis
      by simp
  next
    case False
    with 1 batch_generator_Cons [OF False] show ?thesis
      by auto
  qed
qed

section \<open>The scheduler\<close>

lemma foldl_write_valid:
  "valid_stream (foldl write_valid st ls) = valid_stream st @ map with_newline ls"
  "error_stream (foldl write_valid st ls) = error_stream st"
  "valid_count (foldl write_valid st ls) = valid_count st + length ls"
  "error_count (foldl write_valid st ls) = error_count st"
  "line_count (foldl write_valid st ls) = line_count st + length ls"
  by (induction ls arbitrary: st) (simp_all add: write_valid_def write_line_def with_newline_def)

lemma foldl_write_error:
  "valid_stream (foldl write_error st ls) = valid_stream st"
  "error_stream (foldl write_error st ls) = error_stream st @ map with_newline ls"
  "valid_count (foldl write_error st ls) = valid_count st"
  "error_count (foldl write_error st ls) = error_count st + length ls"
  "line_count (foldl write_error st ls) = line_count st + length ls"
  by (induction ls arbitrary: st) (simp_all add: write_error_def write_line_def with_newline_def)

lemma ingest_fields:
  "valid_stream (ingest res st) = valid_stream st @ map with_newline (fst res)"
  "error_stream (ingest res st) = error_stream st @ map with_newline (snd res)"
  "valid_count (ingest res st) = valid_count st + length (fst res)"
  "error_count (ingest res st) = error_count st + length (snd res)"
  "line_count (ingest res st) = line_count st + length (fst res) + length (snd res)"
  by (simp_all add: ingest_def foldl_write_valid foldl_write_error)

lemma submit_next_fields [simp]:
  "valid_stream (submit_next st) = valid_stream st"
  "error_stream (submit_next st) = error_stream st"
  "valid_count (submit_next st) = valid_count st"
  "error_count (submit_next st) = error_count st"
  "line_count (submit_next st) = line_count st"
  by (simp_all add: submit_next_def submit_def split: list.splits)

lemma length_filter_both:
  "length (filter P xs) + length (filter (\<lambda>x. \<not> P x) xs) = length xs"
  by (induction xs) auto

lemma consume_fields:
  "valid_stream (consume rt i st)
     = valid_stream st @ map with_newline (filter (accepted rt) (snd (futures st ! i)))"
  "error_stream (consume rt i st)
     = error_stream st @ map with_newline (filter (\<lambda>l. \<not> accepted rt l) (snd (futures st ! i)))"
  "valid_count (consume rt i st)
     = valid_count st + length (filter (accepted rt) (snd (futures st ! i)))"
  "error_count (consume rt i st)
     = error_count st + length (filter (\<lambda>l. \<not> accepted rt l) (snd (futures st ! i)))"
  "line_count (consume rt i st) = line_count st + length (snd (futures st ! i))"
  by (simp_all add: consume_def ingest_fields process_batch_filter pop_future_def
      length_filter_both add.assoc)

lemma consume_pending:
  assumes "i < length (futures st)"
  shows "mset (map snd (futures (consume rt i st))) + {#snd (futures st ! i)#}
           = mset (map snd (futures st))"
proof -
  have "futures st = take i (futures st) @ futures st ! i # drop (Suc i) (futures st)"
    using assms by (rule id_take_nth_drop)
  then have "mset (map snd (futures st))
      = mset (map snd (take i (futures st) @ futures st ! i # drop (Suc i) (futures st)))"
    by simp
  then show ?thesis
    by (simp add: consume_def pop_future_def)
qed

lemma submit_next_pending:
  "mset (map snd (futures (submit_next st))) + mset (batches (submit_next st))
     = mset (map snd (futures st)) + mset (batches st)"
  by (simp add: submit_next_def submit_def split: list.splits)

lemma submit_next_drained:
  "futures (submit_next st) = [] \<longrightarrow> batches (submit_next st) = []"
  by (simp add: submit_next_def submit_def split: list.splits)

lemma consume_loop_Nil: "futures st = [] \<Longrightarrow> consume_loop rt schedule st = st"
  by (subst consume_loop.simps) simp

lemma consume_loop_step:
  "futures st \<noteq> [] \<Longrightarrow>
   consume_loop rt schedule st
     = consume_loop rt (tl schedule)
         (submit_next (consume rt (pick schedule (length (futures st))) st))"
  by (subst consume_loop.simps) simp

text \<open>
  The loop ends with nothing in flight, and what it has written is the results of the
  batches that were waiting or in flight, each result in one piece, in some order.
\<close>

lemma consume_loop_order:
  assumes "futures st = [] \<longrightarrow> batches st = []"
  shows "\<exists>order. mset order = mset (map snd (futures st)) + mset (batches st)
     \<and> valid_stream (consume_loop rt schedule st)
         = valid_stream st @ map with_newline (concat (map (filter (accepted rt)) order))
     \<and> error_stream (consume_loop rt schedule st)
         = error_stream st @ map with_newline (concat (map (filter (\<lambda>l. \<not> accepted rt l)) order))
     \<and> valid_count (consume_loop rt schedule st)
         = valid_count st + length (concat (map (filter (accepted rt)) order))
     \<and> error_count (consume_loop rt schedule st)
         = error_count st + length (concat (map (filter (\<lambda>l. \<not> accepted rt l)) order))
     \<and> line_count (consume_loop rt schedule st) = line_count st + length (concat order)
     \<and> futures (consume_loop rt schedule st) = []"
  using assms
proof (induction rt schedule st rule: consume_loop.induct)
  case (1 rt schedule st)
  show ?case
  proof (cases "futures st = []")
    case True
    with "1.prems" have "batches st = []"
      by simp
    with True show ?thesis
      by (simp add: consume_loop_Nil)
  next
    case False
    let ?i = "pick schedule (length (futures st))"
    let ?b = "snd (futures st ! ?i)"
    let ?st = "submit_next (consume rt ?i st)"
    from False have i: "?i < length (futures st)"
      by (simp add: pick_less)
    from "1.IH" [OF False submit_next_drained]
    obtain order where o: "mset order = mset (map snd (futures ?st)) + mset (batches ?st)"
      and vs: "valid_stream (consume_loop rt (tl schedule) ?st)
         = valid_stream ?st @ map with_newline (concat (map (filter (accepted rt)) order))"
      and es: "error_stream (consume_loop rt (tl schedule) ?st)
         = error_stream ?st @ map with_newline (concat (map (filter (\<lambda>l. \<not> accepted rt l)) order))"
      and vc: "valid_count (consume_loop rt (tl schedule) ?st)
         = valid_count ?st + length (concat (map (filter (accepted rt)) order))"
      and ec: "error_count (consume_loop rt (tl schedule) ?st)
         = error_count ?st + length (concat (map (filter (\<lambda>l. \<not> accepted rt l)) order))"
      and lc: "line_count (consume_loop rt (tl schedule) ?st) = line_count ?st + length (concat order)"
      and fu: "futures (consume_loop rt (tl schedule) ?st) = []"
      by blast
    have "mset (?b # order) = mset (map snd (futures (consume rt ?i st)))
            + mset (batches (consume rt ?i st)) + {#?b#}"
      using o submit_next_pending [of "consume rt ?i st"] by simp
    also have "\<dots> = mset (map snd (futures st)) + mset (batches st)"
      using consume_pending [OF i, of rt] by simp
    finally have o': "mset (?b # order) = mset (map snd (futures st)) + mset (batches st)" .
    have step: "consume_loop rt schedule st = consume_loop rt (tl schedule) ?st"
      using False by (rule consume_loop_step)
    show ?thesis
      apply (rule exI [of _ "?b # order"])
      using o' vs es vc ec lc fu
      by (simp add: step consume_fields)
  qed
qed

lemma initial_fill_fields [simp]:
  "valid_stream (initial_fill k st) = valid_stream st"
  "error_stream (initial_fill k st) = error_stream st"
  "valid_count (initial_fill k st) = valid_count st"
  "error_count (initial_fill k st) = error_count st"
  "line_count (initial_fill k st) = line_count st"
  by (induction k arbitrary: st) (simp_all add: submit_def split: list.splits)

lemma initial_fill_pending:
  "mset (map snd (futures (initial_fill k st))) + mset (batches (initial_fill k st))
     = mset (map snd (futures st)) + mset (batches st)"
  by (induction k arbitrary: st) (simp_all add: submit_def split: list.splits)

lemma initial_fill_drained:
  "futures st \<noteq> [] \<or> 0 < k \<Longrightarrow>
   futures (initial_fill k st) = [] \<longrightarrow> batches (initial_fill k st) = []"
  by (induction k arbitrary: st) (auto simp add: submit_def split: list.splits)

lemma mset_concat_sum: "mset (concat xss) = sum_mset (image_mset mset (mset xss))"
  by (induction xss) simp_all

lemma mset_concat_order:
  "mset order = mset bs \<Longrightarrow> mset (concat (map f order)) = mset (concat (map f bs))"
proof -
  note c = mset_concat_sum
  assume "mset order = mset bs"
  then have eq: "mset (map f order) = mset (map f bs)"
    by (metis mset_map)
  have "mset (concat (map f order)) = sum_mset (image_mset mset (mset (map f order)))"
    by (rule c)
  also have "\<dots> = sum_mset (image_mset mset (mset (map f bs)))"
    by (simp only: eq)
  also have "\<dots> = mset (concat (map f bs))"
    by (rule c [symmetric])
  finally show ?thesis .
qed

section \<open>The two outputs of \<^verbatim>\<open>app_multithread.py\<close>\<close>

lemma start_sched_fields [simp]:
  "valid_stream (start_sched st bs) = valid_stream st"
  "error_stream (start_sched st bs) = error_stream st"
  "valid_count (start_sched st bs) = valid_count st"
  "error_count (start_sched st bs) = error_count st"
  "line_count (start_sched st bs) = line_count st"
  "futures (start_sched st bs) = []"
  "batch_count (start_sched st bs) = 0"
  "batches (start_sched st bs) = bs"
  by (simp_all add: start_sched_def locals.extend_def)

lemma header_step_fields:
  assumes "header_step decode body = Inr st"
  shows "\<exists>hs. valid_stream st = map with_newline hs \<and> error_stream st = map with_newline hs
     \<and> line_count st = length hs \<and> valid_count st = 0 \<and> error_count st = 0
     \<and> (if body = [] \<or> hd body = [] then hs = [] else decode (hd body) = Inr (hd hs) \<and> length hs = 1)"
proof (cases "body = [] \<or> hd body = []")
  case True
  with assms have "st = init_locals"
    by (auto simp: header_step_def split: list.splits)
  with True show ?thesis
    by (intro exI [of _ "[]"]) (simp add: init_locals_def)
next
  case False
  then obtain raw raws where b: "body = raw # raws" "raw \<noteq> []"
    by (cases body) auto
  with assms obtain h where h: "decode raw = Inr h"
    by (cases "decode raw") (auto simp: header_step_def)
  with b assms show ?thesis
    by (intro exI [of _ "[h]"])
       (auto simp: header_step_def init_locals_def write_line_def with_newline_def)
qed

lemma length_concat_filter_both:
  "length (concat (map (filter P) xss)) + length (concat (map (filter (\<lambda>x. \<not> P x)) xss))
     = length (concat xss)"
proof (induction xss)
  case Nil
  show ?case by simp
next
  case (Cons xs xss)
  from length_filter_both [of P xs] Cons show ?case
    by simp
qed

text \<open>
  What a completed run returns: the header when the first line of the stream is not
  empty, then in each output the results of the batches, whole, in the order in which
  they completed.
\<close>

lemma lambda_handler_mt_outputs:
  assumes w: "0 < w" and run: "lambda_handler_mt_with w n rt decode schedule body = Inr r"
  shows "\<exists>hs ds order.
       decoded_lines decode (tl body) = Inr ds
     \<and> (if body = [] \<or> hd body = [] then hs = [] else decode (hd body) = Inr (hd hs) \<and> length hs = 1)
     \<and> mset order = mset (batch_generator ds n)
     \<and> valid_output r = map with_newline (hs @ concat (map (filter (accepted rt)) order))
     \<and> error_output r = map with_newline (hs @ concat (map (filter (\<lambda>l. \<not> accepted rt l)) order))
     \<and> valid_lines r = length (concat (map (filter (accepted rt)) order))
     \<and> error_lines r = length (concat (map (filter (\<lambda>l. \<not> accepted rt l)) order))
     \<and> total_lines r = length hs + length (concat order)"
proof -
  from run obtain st where st: "header_step decode body = Inr st"
    by (cases "header_step decode body") (auto simp: lambda_handler_mt_with_def)
  from run st w obtain ds where ds: "decoded_lines decode (tl body) = Inr ds"
    by (cases "decoded_lines decode (tl body)") (auto simp: lambda_handler_mt_with_def)
  let ?s0 = "start_sched st (batch_generator ds n)"
  let ?s1 = "initial_fill (w * 2) ?s0"
  from run st w ds have r: "r = respond (consume_loop rt schedule ?s1)"
    by (simp add: lambda_handler_mt_with_def)
  from header_step_fields [OF st] obtain hs
    where hs: "valid_stream st = map with_newline hs" "error_stream st = map with_newline hs"
      "line_count st = length hs" "valid_count st = 0" "error_count st = 0"
      "if body = [] \<or> hd body = [] then hs = [] else decode (hd body) = Inr (hd hs) \<and> length hs = 1"
    by blast
  from w have "futures ?s1 = [] \<longrightarrow> batches ?s1 = []"
    by (intro initial_fill_drained) simp
  from consume_loop_order [OF this, of rt schedule]
  obtain order where o: "mset order = mset (map snd (futures ?s1)) + mset (batches ?s1)"
    and f: "valid_stream (consume_loop rt schedule ?s1)
         = valid_stream ?s1 @ map with_newline (concat (map (filter (accepted rt)) order))"
      "error_stream (consume_loop rt schedule ?s1)
         = error_stream ?s1 @ map with_newline (concat (map (filter (\<lambda>l. \<not> accepted rt l)) order))"
      "valid_count (consume_loop rt schedule ?s1)
         = valid_count ?s1 + length (concat (map (filter (accepted rt)) order))"
      "error_count (consume_loop rt schedule ?s1)
         = error_count ?s1 + length (concat (map (filter (\<lambda>l. \<not> accepted rt l)) order))"
      "line_count (consume_loop rt schedule ?s1) = line_count ?s1 + length (concat order)"
    by blast
  from o initial_fill_pending [of "w * 2" ?s0]
  have o': "mset order = mset (batch_generator ds n)"
    by simp
  show ?thesis
    apply (rule exI [of _ hs], rule exI [of _ ds], rule exI [of _ order])
    using ds hs o' f by (simp add: r respond_def)
qed

lemma decoded_lines_first:
  "body \<noteq> [] \<Longrightarrow> hd body \<noteq> [] \<Longrightarrow> decode (hd body) = Inr h \<Longrightarrow>
   decoded_lines decode (tl body) = Inr ds \<Longrightarrow> decoded_lines decode body = Inr (h # ds)"
  by (cases body) auto

lemma decoded_lines_blank:
  "body = [] \<or> hd body = [] \<Longrightarrow> decoded_lines decode (tl body) = decoded_lines decode body"
  by (cases body) auto

text \<open>
  C10. The two lists \<^verbatim>\<open>process_batch\<close> returns are the accepted and the rejected lines of
  the batch, each in the order of the batch: two subsequences that together are the
  batch. A completed run writes to each output, after the header, the results of the
  batches whole and one after the other, in the order in which they completed, so two
  records of one batch keep their order in each output.
\<close>

theorem C10_batch_partition:
  "process_batch rt batch = (filter (accepted rt) batch, filter (\<lambda>l. \<not> accepted rt l) batch)
   \<and> subseq (fst (process_batch rt batch)) batch
   \<and> subseq (snd (process_batch rt batch)) batch
   \<and> mset (fst (process_batch rt batch)) + mset (snd (process_batch rt batch)) = mset batch
   \<and> (0 < w \<and> lambda_handler_mt_with w n rt decode schedule body = Inr r \<longrightarrow>
        (\<exists>hs ds order. length hs \<le> 1 \<and> decoded_lines decode (tl body) = Inr ds
           \<and> mset order = mset (batch_generator ds n)
           \<and> valid_output r = map with_newline (hs @ concat (map (\<lambda>b. fst (process_batch rt b)) order))
           \<and> error_output r = map with_newline (hs @ concat (map (\<lambda>b. snd (process_batch rt b)) order))))"
proof -
  have a: "process_batch rt batch = (filter (accepted rt) batch, filter (\<lambda>l. \<not> accepted rt l) batch)"
    by (rule process_batch_filter)
  have b: "mset (fst (process_batch rt batch)) + mset (snd (process_batch rt batch)) = mset batch"
    by (simp add: a)
  have c: "0 < w \<and> lambda_handler_mt_with w n rt decode schedule body = Inr r \<longrightarrow>
        (\<exists>hs ds order. length hs \<le> 1 \<and> decoded_lines decode (tl body) = Inr ds
           \<and> mset order = mset (batch_generator ds n)
           \<and> valid_output r = map with_newline (hs @ concat (map (\<lambda>b. fst (process_batch rt b)) order))
           \<and> error_output r = map with_newline (hs @ concat (map (\<lambda>b. snd (process_batch rt b)) order)))"
  proof
    assume h: "0 < w \<and> lambda_handler_mt_with w n rt decode schedule body = Inr r"
    then have w: "0 < w" and run: "lambda_handler_mt_with w n rt decode schedule body = Inr r"
      by simp_all
    from lambda_handler_mt_outputs [OF w run] obtain hs ds order
      where "decoded_lines decode (tl body) = Inr ds"
        and "if body = [] \<or> hd body = [] then hs = [] else decode (hd body) = Inr (hd hs) \<and> length hs = 1"
        and "mset order = mset (batch_generator ds n)"
        and "valid_output r = map with_newline (hs @ concat (map (filter (accepted rt)) order))"
        and "error_output r = map with_newline (hs @ concat (map (filter (\<lambda>l. \<not> accepted rt l)) order))"
      by blast
    then show "\<exists>hs ds order. length hs \<le> 1 \<and> decoded_lines decode (tl body) = Inr ds
           \<and> mset order = mset (batch_generator ds n)
           \<and> valid_output r = map with_newline (hs @ concat (map (\<lambda>b. fst (process_batch rt b)) order))
           \<and> error_output r = map with_newline (hs @ concat (map (\<lambda>b. snd (process_batch rt b)) order))"
      by (intro exI [of _ hs] exI [of _ ds] exI [of _ order])
         (auto simp: process_batch_filter split: if_splits)
  qed
  from a b c show ?thesis
    by (simp add: a)
qed

section \<open>Runs on small streams\<close>

lemmas validator_defs =
  accepted_def validate_csv_row_def validate_row_def csv_defs py_int_defs date_defs
  char_class_defs accept_def reject_def

lemma accepted_row_1: "accepted rt ''1,a,2024/01/01''"
  by (simp add: validator_defs)

lemma accepted_row_2: "accepted rt ''2,b,2024/01/02''"
  by (simp add: validator_defs)

lemma rejected_row_x: "\<not> accepted rt ''x''"
  by (simp add: validator_defs)

lemma rejected_header: "\<not> accepted rt ''no,name,created_date''"
  by (simp add: validator_defs)

lemma two_batches:
  "batch_generator [''1,a,2024/01/01'', ''x'', ''2,b,2024/01/02''] 2
     = [[''1,a,2024/01/01'', ''x''], [''2,b,2024/01/02'']]"
  by (simp add: batch_generator_Cons batch_generator_Nil)

lemma fill_two:
  "initial_fill 2 (start_sched st [[''1,a,2024/01/01'', ''x''], [''2,b,2024/01/02'']])
    = (start_sched st [])\<lparr>futures := [(0, [''1,a,2024/01/01'', ''x'']), (Suc 0, [''2,b,2024/01/02''])],
                           batch_count := 2\<rparr>"
  by (simp add: numeral_2_eq_2 start_sched_def locals.extend_def submit_def)

lemma loop_two:
  "respond (consume_loop rt [Suc 0]
     ((start_sched st [])\<lparr>futures := [(0, [''1,a,2024/01/01'', ''x'']), (Suc 0, [''2,b,2024/01/02''])],
                            batch_count := 2\<rparr>))
   = \<lparr>valid_output = valid_stream st @ [with_newline ''2,b,2024/01/02'', with_newline ''1,a,2024/01/01''],
      error_output = error_stream st @ [with_newline ''x''],
      total_lines = line_count st + 3, valid_lines = valid_count st + 2,
      error_lines = error_count st + 1\<rparr>"
  by (simp add: consume_loop_step consume_loop_Nil start_sched_def locals.extend_def
      submit_def submit_next_def consume_def pop_future_def pick_def ingest_def write_valid_def
      write_error_def write_line_def respond_def process_batch_filter accepted_row_1
      accepted_row_2 rejected_row_x with_newline_def)

lemma run_out_of_order:
  "lambda_handler_mt_with 1 2 rt Inr [1]
       [''no,name,created_date'', ''1,a,2024/01/01'', ''x'', ''2,b,2024/01/02'']
     = Inr \<lparr>valid_output = [with_newline ''no,name,created_date'', with_newline ''2,b,2024/01/02'',
                            with_newline ''1,a,2024/01/01''],
            error_output = [with_newline ''no,name,created_date'', with_newline ''x''],
            total_lines = 4, valid_lines = 2, error_lines = 1\<rparr>"
  by (simp add: lambda_handler_mt_with_def header_step_def init_locals_def two_batches fill_two
      loop_two write_line_def with_newline_def)

theorem C10_batch_partition_witness:
  "lambda_handler_mt_with 1 2 cpython_default Inr [1]
       [''no,name,created_date'', ''1,a,2024/01/01'', ''x'', ''2,b,2024/01/02'']
     = Inr \<lparr>valid_output = [with_newline ''no,name,created_date'', with_newline ''2,b,2024/01/02'',
                            with_newline ''1,a,2024/01/01''],
            error_output = [with_newline ''no,name,created_date'', with_newline ''x''],
            total_lines = 4, valid_lines = 2, error_lines = 1\<rparr>
   \<and> (\<exists>hs ds order. length hs \<le> 1
        \<and> decoded_lines Inr [''1,a,2024/01/01'', ''x'', ''2,b,2024/01/02''] = Inr ds
        \<and> mset order = mset (batch_generator ds 2)
        \<and> [with_newline ''no,name,created_date'', with_newline ''2,b,2024/01/02'',
            with_newline ''1,a,2024/01/01'']
            = map with_newline (hs @ concat (map (\<lambda>b. fst (process_batch cpython_default b)) order))
        \<and> [with_newline ''no,name,created_date'', with_newline ''x'']
            = map with_newline (hs @ concat (map (\<lambda>b. snd (process_batch cpython_default b)) order)))"
proof -
  let ?body = "[''no,name,created_date'', ''1,a,2024/01/01'', ''x'', ''2,b,2024/01/02'']"
  let ?r = "\<lparr>valid_output = [with_newline ''no,name,created_date'', with_newline ''2,b,2024/01/02'',
                            with_newline ''1,a,2024/01/01''],
            error_output = [with_newline ''no,name,created_date'', with_newline ''x''],
            total_lines = 4, valid_lines = 2, error_lines = 1\<rparr>"
  have run: "lambda_handler_mt_with 1 2 cpython_default Inr [1] ?body = Inr ?r"
    by (rule run_out_of_order)
  have w: "0 < (1::nat)"
    by simp
  from C10_batch_partition [of cpython_default "[]" 1 2 Inr "[1]" ?body ?r] w run
  have "\<exists>hs ds order. length hs \<le> 1 \<and> decoded_lines Inr (tl ?body) = Inr ds
           \<and> mset order = mset (batch_generator ds 2)
           \<and> valid_output ?r = map with_newline (hs @ concat (map (\<lambda>b. fst (process_batch cpython_default b)) order))
           \<and> error_output ?r = map with_newline (hs @ concat (map (\<lambda>b. snd (process_batch cpython_default b)) order))"
    by blast
  with run show ?thesis
    by simp
qed

section \<open>Counts and the header\<close>

lemma decoded_lines_hd:
  "decoded_lines decode body = Inr (h # ds) \<Longrightarrow> decode (hd (non_empty body)) = Inr h"
  by (induction body) (auto simp: non_empty_def split: if_splits sum.splits)

lemma non_empty_hd: "body \<noteq> [] \<Longrightarrow> hd body \<noteq> [] \<Longrightarrow> hd (non_empty body) = hd body"
  by (cases body) (auto simp: non_empty_def)

text \<open>
  The data part of the outputs of a completed run of \<^verbatim>\<open>app_multithread.py\<close>: every
  line decoded after the first line of the stream is in exactly one output, by its
  verdict, and the counters count these lines.
\<close>

lemma lambda_handler_mt_data:
  assumes w: "0 < w" and n: "0 < n"
    and run: "lambda_handler_mt_with w n rt decode schedule body = Inr r"
  shows "\<exists>hs ds vs es.
       decoded_lines decode (tl body) = Inr ds
     \<and> (if body = [] \<or> hd body = [] then hs = [] else decode (hd body) = Inr (hd hs) \<and> length hs = 1)
     \<and> valid_output r = map with_newline hs @ vs
     \<and> mset vs = mset (map with_newline (filter (accepted rt) ds))
     \<and> error_output r = map with_newline hs @ es
     \<and> mset es = mset (map with_newline (filter (\<lambda>l. \<not> accepted rt l) ds))
     \<and> valid_lines r = length (filter (accepted rt) ds)
     \<and> error_lines r = length (filter (\<lambda>l. \<not> accepted rt l) ds)
     \<and> total_lines r = length hs + length ds"
proof -
  from lambda_handler_mt_outputs [OF w run] obtain hs ds order
    where ds: "decoded_lines decode (tl body) = Inr ds"
      and hs: "if body = [] \<or> hd body = [] then hs = [] else decode (hd body) = Inr (hd hs) \<and> length hs = 1"
      and o: "mset order = mset (batch_generator ds n)"
      and vo: "valid_output r = map with_newline (hs @ concat (map (filter (accepted rt)) order))"
      and eo: "error_output r = map with_newline (hs @ concat (map (filter (\<lambda>l. \<not> accepted rt l)) order))"
      and vl: "valid_lines r = length (concat (map (filter (accepted rt)) order))"
      and el: "error_lines r = length (concat (map (filter (\<lambda>l. \<not> accepted rt l)) order))"
      and tl: "total_lines r = length hs + length (concat order)"
    by blast
  have part: "mset (concat (map (filter P) order)) = mset (filter P ds)" for P
  proof -
    have "mset (concat (map (filter P) order)) = mset (concat (map (filter P) (batch_generator ds n)))"
      using o by (rule mset_concat_order)
    also have "\<dots> = mset (filter P (concat (batch_generator ds n)))"
      by (simp add: filter_concat)
    finally show ?thesis
      by (simp add: batch_generator_concat [OF n])
  qed
  have len: "length (concat (map (filter P) order)) = length (filter P ds)" for P
    using part [of P] by (metis size_mset)
  have "mset (concat (map (\<lambda>b. b) order)) = mset (concat (map (\<lambda>b. b) (batch_generator ds n)))"
    using o by (rule mset_concat_order)
  then have "mset (concat order) = mset ds"
    by (simp add: batch_generator_concat [OF n])
  then have all: "length (concat order) = length ds"
    by (metis size_mset)
  show ?thesis
    apply (rule exI [of _ hs], rule exI [of _ ds])
    apply (rule exI [of _ "map with_newline (concat (map (filter (accepted rt)) order))"])
    apply (rule exI [of _ "map with_newline (concat (map (filter (\<lambda>l. \<not> accepted rt l)) order))"])
    using ds hs vo eo vl el tl all by (simp add: len part)
qed

text \<open>
  The count of records in \<^verbatim>\<open>app.py\<close>: the accepted and the rejected lines are the lines
  that are not empty, less the header.
\<close>

lemma lambda_handler_counts:
  assumes "lambda_handler rt decode body = Inr r"
  shows "valid_lines r + error_lines r = length (non_empty body) - 1"
proof -
  from assms obtain ds where ds: "decoded_lines decode body = Inr ds"
    by (cases "decoded_lines decode body") (auto simp: lambda_handler_eq)
  with assms have "valid_lines r + error_lines r = length (drop 1 ds)"
    by (auto simp: lambda_handler_eq length_filter_both)
  with decoded_lines_length [OF ds] show ?thesis
    by simp
qed

text \<open>
  The same count in \<^verbatim>\<open>app_multithread.py\<close> holds when the first line of the stream is
  not empty; when it is empty, every line that is not empty is counted as a record.
\<close>

lemma lambda_handler_mt_counts:
  assumes "0 < w" and "0 < n" and "lambda_handler_mt_with w n rt decode schedule body = Inr r"
  shows "valid_lines r + error_lines r
     = (if body = [] \<or> hd body = [] then length (non_empty body) else length (non_empty body) - 1)"
proof -
  from lambda_handler_mt_data [OF assms] obtain ds
    where ds: "decoded_lines decode (tl body) = Inr ds"
      and c: "valid_lines r = length (filter (accepted rt) ds)"
        "error_lines r = length (filter (\<lambda>l. \<not> accepted rt l) ds)"
    by blast
  from c have "valid_lines r + error_lines r = length ds"
    by (simp add: length_filter_both)
  also from decoded_lines_length [OF ds] have "\<dots> = length (non_empty (tl body))" .
  also have "\<dots> = (if body = [] \<or> hd body = [] then length (non_empty body) else length (non_empty body) - 1)"
    by (cases body) (auto simp: non_empty_def)
  finally show ?thesis .
qed

lemma pick_one [simp]: "pick schedule (Suc 0) = 0"
  by (simp add: pick_def split: list.splits)

lemma initial_fill_empty: "batches st = [] \<Longrightarrow> initial_fill k st = st"
  by (cases k) simp_all

lemma initial_fill_single:
  "0 < k \<Longrightarrow> batches st = [batch] \<Longrightarrow> initial_fill k st = submit batch (st\<lparr>batches := []\<rparr>)"
  by (cases k) (simp_all add: initial_fill_empty submit_def)

lemma run_blank_first:
  "lambda_handler_mt rt Inr schedule [[], ''no,name,created_date'', ''1,a,2024/01/01'']
     = Inr \<lparr>valid_output = [with_newline ''1,a,2024/01/01''],
            error_output = [with_newline ''no,name,created_date''],
            total_lines = 2, valid_lines = 1, error_lines = 1\<rparr>"
proof -
  let ?b = "[''no,name,created_date'', ''1,a,2024/01/01'']"
  have g: "batch_generator ?b 1000 = [?b]"
    by (simp add: batch_generator_Cons batch_generator_Nil)
  have f: "initial_fill 8 (start_sched init_locals [?b])
      = submit ?b ((start_sched init_locals [?b])\<lparr>batches := []\<rparr>)"
    by (rule initial_fill_single) simp_all
  have l: "respond (consume_loop rt schedule (submit ?b ((start_sched init_locals [?b])\<lparr>batches := []\<rparr>)))
      = \<lparr>valid_output = [with_newline ''1,a,2024/01/01''],
         error_output = [with_newline ''no,name,created_date''],
         total_lines = 2, valid_lines = 1, error_lines = 1\<rparr>"
    by (simp add: consume_loop_step consume_loop_Nil start_sched_def locals.extend_def
        init_locals_def submit_def submit_next_def consume_def pop_future_def ingest_def
        write_valid_def write_error_def write_line_def respond_def process_batch_filter
        accepted_row_1 rejected_header with_newline_def)
  show ?thesis
    by (simp add: lambda_handler_mt_def lambda_handler_mt_with_def MAX_WORKERS_def BATCH_SIZE_def
        header_step_def g f l)
qed

lemma run_app_blank_first:
  "lambda_handler rt Inr [[], ''no,name,created_date'', ''1,a,2024/01/01'']
     = Inr \<lparr>valid_output = [with_newline ''no,name,created_date'', with_newline ''1,a,2024/01/01''],
            error_output = [with_newline ''no,name,created_date''],
            total_lines = 2, valid_lines = 1, error_lines = 0\<rparr>"
  by (simp add: lambda_handler_eq accepted_row_1)

text \<open>
  C1, at a stream whose first line is empty. The stream has one header and one data
  record. \<^verbatim>\<open>app.py\<close> forwards the header and counts one record. \<^verbatim>\<open>app_multithread.py\<close>
  takes the empty first line for the header, forwards no header, validates the header
  line as a record and counts two records, one accepted and one rejected, under every
  schedule.
\<close>

theorem C1_leading_blank_line:
  "lambda_handler_mt rt Inr schedule [[], ''no,name,created_date'', ''1,a,2024/01/01'']
     = Inr \<lparr>valid_output = [with_newline ''1,a,2024/01/01''],
            error_output = [with_newline ''no,name,created_date''],
            total_lines = 2, valid_lines = 1, error_lines = 1\<rparr>
   \<and> length (tl (non_empty [[], ''no,name,created_date'', ''1,a,2024/01/01''])) = 1
   \<and> lambda_handler rt Inr [[], ''no,name,created_date'', ''1,a,2024/01/01'']
     = Inr \<lparr>valid_output = [with_newline ''no,name,created_date'', with_newline ''1,a,2024/01/01''],
            error_output = [with_newline ''no,name,created_date''],
            total_lines = 2, valid_lines = 1, error_lines = 0\<rparr>"
  by (simp add: run_blank_first run_app_blank_first non_empty_def)

text \<open>
  C4, as amended. In \<^verbatim>\<open>app.py\<close> the header is the first line of the stream that is not
  empty. It is written once, at the head of both outputs, whatever a validator would say
  of it; the lines after it are the accepted and the rejected records; the header is not
  in the accepted or the rejected count, and it is in the total, which is their sum plus
  one. In \<^verbatim>\<open>app_multithread.py\<close> the same holds of a stream whose first line is not
  empty, the records of each output in the order of completion.
\<close>

theorem C4_header:
  "(lambda_handler rt decode body = Inr r \<and> non_empty body \<noteq> [] \<longrightarrow>
      (\<exists>h ds. decode (hd (non_empty body)) = Inr h \<and> decoded_lines decode body = Inr (h # ds)
         \<and> valid_output r = with_newline h # map with_newline (filter (accepted rt) ds)
         \<and> error_output r = with_newline h # map with_newline (filter (\<lambda>l. \<not> accepted rt l) ds)
         \<and> valid_lines r = length (filter (accepted rt) ds)
         \<and> error_lines r = length (filter (\<lambda>l. \<not> accepted rt l) ds)
         \<and> total_lines r = valid_lines r + error_lines r + 1))
   \<and> (0 < w \<and> 0 < n \<and> body \<noteq> [] \<and> hd body \<noteq> []
        \<and> lambda_handler_mt_with w n rt decode schedule body = Inr r' \<longrightarrow>
      (\<exists>h ds vs es. decode (hd (non_empty body)) = Inr h \<and> decoded_lines decode body = Inr (h # ds)
         \<and> valid_output r' = with_newline h # vs
         \<and> mset vs = mset (map with_newline (filter (accepted rt) ds))
         \<and> error_output r' = with_newline h # es
         \<and> mset es = mset (map with_newline (filter (\<lambda>l. \<not> accepted rt l) ds))
         \<and> valid_lines r' = length (filter (accepted rt) ds)
         \<and> error_lines r' = length (filter (\<lambda>l. \<not> accepted rt l) ds)
         \<and> total_lines r' = valid_lines r' + error_lines r' + 1))"
proof (intro conjI impI)
  assume a: "lambda_handler rt decode body = Inr r \<and> non_empty body \<noteq> []"
  then obtain xs where xs: "decoded_lines decode body = Inr xs"
    by (cases "decoded_lines decode body") (auto simp: lambda_handler_eq)
  from decoded_lines_length [OF xs] a obtain h ds where hd: "xs = h # ds"
    by (cases xs) auto
  from xs hd have h: "decode (hd (non_empty body)) = Inr h"
    by (auto dest: decoded_lines_hd)
  from a xs hd have "valid_output r = with_newline h # map with_newline (filter (accepted rt) ds)
         \<and> error_output r = with_newline h # map with_newline (filter (\<lambda>l. \<not> accepted rt l) ds)
         \<and> valid_lines r = length (filter (accepted rt) ds)
         \<and> error_lines r = length (filter (\<lambda>l. \<not> accepted rt l) ds)
         \<and> total_lines r = valid_lines r + error_lines r + 1"
    by (auto simp: lambda_handler_eq length_filter_both)
  with h xs hd show "\<exists>h ds. decode (hd (non_empty body)) = Inr h \<and> decoded_lines decode body = Inr (h # ds)
         \<and> valid_output r = with_newline h # map with_newline (filter (accepted rt) ds)
         \<and> error_output r = with_newline h # map with_newline (filter (\<lambda>l. \<not> accepted rt l) ds)
         \<and> valid_lines r = length (filter (accepted rt) ds)
         \<and> error_lines r = length (filter (\<lambda>l. \<not> accepted rt l) ds)
         \<and> total_lines r = valid_lines r + error_lines r + 1"
    by blast
next
  assume a: "0 < w \<and> 0 < n \<and> body \<noteq> [] \<and> hd body \<noteq> []
        \<and> lambda_handler_mt_with w n rt decode schedule body = Inr r'"
  then have w: "0 < w" and n: "0 < n" and b: "body \<noteq> []" "hd body \<noteq> []"
    and run: "lambda_handler_mt_with w n rt decode schedule body = Inr r'"
    by simp_all
  from lambda_handler_mt_data [OF w n run] b obtain hs ds vs es
    where ds: "decoded_lines decode (tl body) = Inr ds"
      and hs: "decode (hd body) = Inr (hd hs)" "length hs = 1"
      and o: "valid_output r' = map with_newline hs @ vs"
        "mset vs = mset (map with_newline (filter (accepted rt) ds))"
        "error_output r' = map with_newline hs @ es"
        "mset es = mset (map with_newline (filter (\<lambda>l. \<not> accepted rt l) ds))"
        "valid_lines r' = length (filter (accepted rt) ds)"
        "error_lines r' = length (filter (\<lambda>l. \<not> accepted rt l) ds)"
        "total_lines r' = length hs + length ds"
    by auto
  from hs(2) obtain h where h: "hs = [h]"
    by (cases hs) auto
  from h hs b ds have full: "decoded_lines decode body = Inr (h # ds)"
    by (simp add: decoded_lines_first)
  from h hs b have dh: "decode (hd (non_empty body)) = Inr h"
    by (simp add: non_empty_hd)
  from o h have "valid_output r' = with_newline h # vs \<and> error_output r' = with_newline h # es
      \<and> total_lines r' = valid_lines r' + error_lines r' + 1"
    by (simp add: length_filter_both)
  with dh full o show "\<exists>h ds vs es. decode (hd (non_empty body)) = Inr h \<and> decoded_lines decode body = Inr (h # ds)
         \<and> valid_output r' = with_newline h # vs
         \<and> mset vs = mset (map with_newline (filter (accepted rt) ds))
         \<and> error_output r' = with_newline h # es
         \<and> mset es = mset (map with_newline (filter (\<lambda>l. \<not> accepted rt l) ds))
         \<and> valid_lines r' = length (filter (accepted rt) ds)
         \<and> error_lines r' = length (filter (\<lambda>l. \<not> accepted rt l) ds)
         \<and> total_lines r' = valid_lines r' + error_lines r' + 1"
    by blast
qed

lemma run_app_two_lines:
  "lambda_handler rt Inr [''no,name,created_date'', ''1,a,2024/01/01'']
     = Inr \<lparr>valid_output = [with_newline ''no,name,created_date'', with_newline ''1,a,2024/01/01''],
            error_output = [with_newline ''no,name,created_date''],
            total_lines = 2, valid_lines = 1, error_lines = 0\<rparr>"
  by (simp add: lambda_handler_eq accepted_row_1)

theorem C4_header_witness:
  "lambda_handler cpython_default Inr [''no,name,created_date'', ''1,a,2024/01/01'']
     = Inr \<lparr>valid_output = [with_newline ''no,name,created_date'', with_newline ''1,a,2024/01/01''],
            error_output = [with_newline ''no,name,created_date''],
            total_lines = 2, valid_lines = 1, error_lines = 0\<rparr>
   \<and> (\<exists>ds. decoded_lines Inr [''no,name,created_date'', ''1,a,2024/01/01'']
               = Inr (''no,name,created_date'' # ds)
         \<and> [with_newline ''no,name,created_date'', with_newline ''1,a,2024/01/01'']
             = with_newline ''no,name,created_date'' # map with_newline (filter (accepted cpython_default) ds))
   \<and> lambda_handler_mt_with 1 2 cpython_default Inr [1]
       [''no,name,created_date'', ''1,a,2024/01/01'', ''x'', ''2,b,2024/01/02'']
     = Inr \<lparr>valid_output = [with_newline ''no,name,created_date'', with_newline ''2,b,2024/01/02'',
                            with_newline ''1,a,2024/01/01''],
            error_output = [with_newline ''no,name,created_date'', with_newline ''x''],
            total_lines = 4, valid_lines = 2, error_lines = 1\<rparr>
   \<and> (\<exists>ds vs. decoded_lines Inr [''no,name,created_date'', ''1,a,2024/01/01'', ''x'', ''2,b,2024/01/02'']
               = Inr (''no,name,created_date'' # ds)
         \<and> [with_newline ''no,name,created_date'', with_newline ''2,b,2024/01/02'',
             with_newline ''1,a,2024/01/01''] = with_newline ''no,name,created_date'' # vs
         \<and> mset vs = mset (map with_newline (filter (accepted cpython_default) ds)))"
proof -
  let ?b1 = "[''no,name,created_date'', ''1,a,2024/01/01'']"
  let ?r1 = "\<lparr>valid_output = [with_newline ''no,name,created_date'', with_newline ''1,a,2024/01/01''],
            error_output = [with_newline ''no,name,created_date''],
            total_lines = 2, valid_lines = 1, error_lines = 0\<rparr>"
  let ?b2 = "[''no,name,created_date'', ''1,a,2024/01/01'', ''x'', ''2,b,2024/01/02'']"
  let ?r2 = "\<lparr>valid_output = [with_newline ''no,name,created_date'', with_newline ''2,b,2024/01/02'',
                            with_newline ''1,a,2024/01/01''],
            error_output = [with_newline ''no,name,created_date'', with_newline ''x''],
            total_lines = 4, valid_lines = 2, error_lines = 1\<rparr>"
  have run1: "lambda_handler cpython_default Inr ?b1 = Inr ?r1"
    by (rule run_app_two_lines)
  have ne1: "non_empty ?b1 \<noteq> []"
    by (simp add: non_empty_def)
  have run2: "lambda_handler_mt_with 1 2 cpython_default Inr [1] ?b2 = Inr ?r2"
    by (rule run_out_of_order)
  have h2: "0 < (1::nat) \<and> 0 < (2::nat) \<and> ?b2 \<noteq> [] \<and> hd ?b2 \<noteq> []"
    by simp
  note c1 = C4_header [THEN conjunct1, of cpython_default Inr ?b1 ?r1, rule_format]
  note c2 = C4_header [THEN conjunct2, of 1 2 ?b2 cpython_default Inr "[1]" ?r2, rule_format]
  from c1 run1 ne1 obtain h ds where p1: "Inr (hd (non_empty ?b1)) = (Inr h :: fault + string)"
      "decoded_lines Inr ?b1 = Inr (h # ds)"
      "valid_output ?r1 = with_newline h # map with_newline (filter (accepted cpython_default) ds)"
    by blast
  from p1(1) have hh: "h = ''no,name,created_date''"
    by (simp add: non_empty_def)
  from p1(3) have v1: "[with_newline ''no,name,created_date'', with_newline ''1,a,2024/01/01'']
      = with_newline h # map with_newline (filter (accepted cpython_default) ds)"
    by simp
  have e1: "\<exists>ds. decoded_lines Inr ?b1 = Inr (''no,name,created_date'' # ds)
         \<and> [with_newline ''no,name,created_date'', with_newline ''1,a,2024/01/01'']
             = with_newline ''no,name,created_date'' # map with_newline (filter (accepted cpython_default) ds)"
    by (intro exI [of _ ds] conjI) (rule p1(2) [unfolded hh], rule v1 [unfolded hh])
  from c2 run2 h2 obtain h' ds' vs es where p2: "Inr (hd (non_empty ?b2)) = (Inr h' :: fault + string)"
      "decoded_lines Inr ?b2 = Inr (h' # ds')"
      "valid_output ?r2 = with_newline h' # vs"
      "mset vs = mset (map with_newline (filter (accepted cpython_default) ds'))"
    by blast
  from p2(1) have hh': "h' = ''no,name,created_date''"
    by (simp add: non_empty_def)
  from p2(3) have v2: "[with_newline ''no,name,created_date'', with_newline ''2,b,2024/01/02'',
             with_newline ''1,a,2024/01/01''] = with_newline h' # vs"
    by simp
  have e2: "\<exists>ds vs. decoded_lines Inr ?b2 = Inr (''no,name,created_date'' # ds)
         \<and> [with_newline ''no,name,created_date'', with_newline ''2,b,2024/01/02'',
             with_newline ''1,a,2024/01/01''] = with_newline ''no,name,created_date'' # vs
         \<and> mset vs = mset (map with_newline (filter (accepted cpython_default) ds))"
    by (intro exI [of _ ds'] exI [of _ vs] conjI)
       (rule p2(2) [unfolded hh'], rule v2 [unfolded hh'], rule p2(4))
  from run1 e1 run2 e2 show ?thesis
    by blast
qed

text \<open>
  The header is counted in the total: a stream of the header and one record gives a total
  of two lines, one of them accepted and none rejected.
\<close>

theorem C4_total_counterexample:
  "lambda_handler cpython_default Inr [''no,name,created_date'', ''1,a,2024/01/01'']
     = Inr \<lparr>valid_output = [with_newline ''no,name,created_date'', with_newline ''1,a,2024/01/01''],
            error_output = [with_newline ''no,name,created_date''],
            total_lines = 2, valid_lines = 1, error_lines = 0\<rparr>"
  by (rule run_app_two_lines)

section \<open>The batches in flight\<close>

lemma sched_step_bound:
  assumes "sched_step rt c c'" and "in_flight_bound m c"
  shows "in_flight_bound m c'"
  using assms
proof (induction rule: sched_step.induct)
  case (fill_submit st batch rest k)
  then show ?case by (simp add: submit_def)
next
  case (fill_stop st k)
  then show ?case by simp
next
  case (fill_done st)
  then show ?case by simp
next
  case (take_result i st)
  then show ?case by (simp add: consume_futures)
next
  case (next_submit st)
  then show ?case by (simp add: submit_next_def submit_def split: list.splits)
qed

lemma reachable_bound:
  assumes "rtranclp (sched_step rt) c c'" and "in_flight_bound m c"
  shows "in_flight_bound m c'"
  using assms by (induction rule: rtranclp_induct) (auto intro: sched_step_bound)

lemma in_flight_bound_le: "in_flight_bound m (ph, st) \<Longrightarrow> length (futures st) \<le> m"
  by (cases ph) simp_all

lemma fill_path: "rtranclp (sched_step rt) (Filling k, st) (Waiting, initial_fill k st)"
proof (induction k arbitrary: st)
  case 0
  show ?case
    by (simp add: r_into_rtranclp sched_step.fill_done)
next
  case (Suc k)
  show ?case
  proof (cases "batches st")
    case Nil
    then show ?thesis
      by (simp add: r_into_rtranclp sched_step.fill_stop)
  next
    case (Cons batch rest)
    then have "sched_step rt (Filling (Suc k), st) (Filling k, submit batch (st\<lparr>batches := rest\<rparr>))"
      by (rule sched_step.fill_submit)
    with Suc [of "submit batch (st\<lparr>batches := rest\<rparr>)"] Cons show ?thesis
      by (simp add: converse_rtranclp_into_rtranclp)
  qed
qed

lemma loop_path: "rtranclp (sched_step rt) (Waiting, st) (Waiting, consume_loop rt schedule st)"
proof (induction rt schedule st rule: consume_loop.induct)
  case (1 rt schedule st)
  show ?case
  proof (cases "futures st = []")
    case True
    then show ?thesis
      by (simp add: consume_loop_Nil)
  next
    case False
    let ?i = "pick schedule (length (futures st))"
    from False have "?i < length (futures st)"
      by (simp add: pick_less)
    then have a: "sched_step rt (Waiting, st) (Ingested, consume rt ?i st)"
      by (rule sched_step.take_result)
    have b: "sched_step rt (Ingested, consume rt ?i st) (Waiting, submit_next (consume rt ?i st))"
      by (rule sched_step.next_submit)
    from "1.IH" [OF False] a b show ?thesis
      by (simp add: consume_loop_step [OF False] converse_rtranclp_into_rtranclp)
  qed
qed

lemma initial_fill_batch_count:
  "batch_count (initial_fill k st) \<le> batch_count st + k"
proof (induction k arbitrary: st)
  case 0
  show ?case by simp
next
  case (Suc k)
  show ?case
  proof (cases "batches st")
    case Nil
    then show ?thesis by simp
  next
    case (Cons batch rest)
    with Suc [of "submit batch (st\<lparr>batches := rest\<rparr>)"] show ?thesis
      by (simp add: submit_def)
  qed
qed

text \<open>
  C7. At every moment of the two loops of the scheduler the batches in flight are at
  most twice the worker count: in the first loop they and the rounds left stay under the
  bound, so at most that many batches are submitted before the first result is awaited,
  and each later submission follows a result the sink has taken, which left room for it.
  The run of the handler is a path of these steps. With the four workers of the module
  the bound is eight.
\<close>

theorem C7_in_flight_bound:
  "(futures st0 = [] \<and> reachable rt max_workers st0 (ph, st) \<longrightarrow>
      in_flight_bound (max_workers * 2) (ph, st) \<and> length (futures st) \<le> max_workers * 2)
   \<and> (futures st0 = [] \<and> reachable rt MAX_WORKERS st0 (ph, st) \<longrightarrow> length (futures st) \<le> 8)
   \<and> reachable rt max_workers st0
        (Waiting, consume_loop rt schedule (initial_fill (max_workers * 2) st0))
   \<and> batch_count (initial_fill (max_workers * 2) st0) \<le> batch_count st0 + max_workers * 2
   \<and> batch_count (submit_next st) \<le> batch_count st + 1"
proof -
  have a: "futures st0 = [] \<and> reachable rt w st0 (ph, st) \<longrightarrow>
      in_flight_bound (w * 2) (ph, st) \<and> length (futures st) \<le> w * 2" for w
  proof
    assume h: "futures st0 = [] \<and> reachable rt w st0 (ph, st)"
    then have "in_flight_bound (w * 2) (Filling (w * 2), st0)"
      by simp
    with h have "in_flight_bound (w * 2) (ph, st)"
      unfolding reachable_def by (blast intro: reachable_bound)
    then show "in_flight_bound (w * 2) (ph, st) \<and> length (futures st) \<le> w * 2"
      by (simp add: in_flight_bound_le)
  qed
  from a [of MAX_WORKERS]
  have b: "futures st0 = [] \<and> reachable rt MAX_WORKERS st0 (ph, st) \<longrightarrow> length (futures st) \<le> 8"
    by (simp add: MAX_WORKERS_def)
  have c: "reachable rt max_workers st0
        (Waiting, consume_loop rt schedule (initial_fill (max_workers * 2) st0))"
    unfolding reachable_def
    using fill_path [of rt "max_workers * 2" st0]
      loop_path [of rt "initial_fill (max_workers * 2) st0" schedule]
    by (rule rtranclp_trans)
  have d: "batch_count (submit_next st) \<le> batch_count st + 1"
    by (simp add: submit_next_def submit_def split: list.splits)
  from a [of max_workers] b c d initial_fill_batch_count [of "max_workers * 2" st0]
  show ?thesis
    by blast
qed

theorem C7_in_flight_bound_witness:
  "futures (start_sched init_locals [[''x'']]) = []
   \<and> reachable cpython_default MAX_WORKERS (start_sched init_locals [[''x'']])
       (Filling 7, submit [''x''] ((start_sched init_locals [[''x'']])\<lparr>batches := []\<rparr>))
   \<and> length (futures (submit [''x''] ((start_sched init_locals [[''x'']])\<lparr>batches := []\<rparr>))) \<le> 8"
proof -
  let ?s0 = "start_sched init_locals [[''x'']]"
  let ?s1 = "submit [''x''] (?s0\<lparr>batches := []\<rparr>)"
  have f: "futures ?s0 = []"
    by simp
  have "batches ?s0 = [''x''] # []"
    by simp
  then have "sched_step cpython_default (Filling (Suc 7), ?s0) (Filling 7, ?s1)"
    by (rule sched_step.fill_submit)
  then have r: "reachable cpython_default MAX_WORKERS ?s0 (Filling 7, ?s1)"
    by (simp add: reachable_def MAX_WORKERS_def r_into_rtranclp)
  from C7_in_flight_bound [of ?s0 cpython_default MAX_WORKERS "Filling 7" ?s1] f r
  have "length (futures ?s1) \<le> 8"
    by blast
  with f r show ?thesis
    by blast
qed

section \<open>The SQL predicate and the validator\<close>

lemma sql_and_Some [simp]: "sql_and (Some a) (Some b) = Some (a \<and> b)"
  by (simp add: sql_and_def)

lemma valid_predicate_present:
  "valid_predicate eng (Some no, Some name, Some d) =
     Some (sql_trim no \<noteq> [] \<and> try_cast_integer eng no \<noteq> None \<and> length name \<le> 20
           \<and> regexp_matches_date d \<and> try_cast_date eng (sql_replace_slash d) \<noteq> None)"
  by (simp add: valid_predicate_def)

lemma py_int_eleven_nines: "py_int rt ''99999999999'' = Inr 99999999999"
  by (simp add: py_int_defs char_class_defs)

lemma validate_row_eleven_nines:
  "validate_row rt [''99999999999'', ''ok'', ''2024/02/29''] = accept"
  by (simp add: validate_row_def py_int_eleven_nines strptime_leap_2024 date_pattern_match_def
      match_digits_def at_dollar_def strip_def char_class_defs)

lemma reader_next_eleven_nines:
  "reader_next rt ''99999999999,ok,2024/02/29'' = Inr [''99999999999'', ''ok'', ''2024/02/29'']"
  by (simp add: csv_defs char_class_defs)

text \<open>
  C6, at the record with id \<^verbatim>\<open>99999999999\<close>, label \<^verbatim>\<open>ok\<close> and day
  \<^verbatim>\<open>2024/02/29\<close>. For the validator the id is the integer 99999999999 and the record is
  accepted, as a row and as a line. The value is outside the 32 bits of \<^verbatim>\<open>INTEGER\<close>: on
  every engine whose cast of this text is \<^verbatim>\<open>NULL\<close> the clause is false, whatever the
  engine does elsewhere, and the record goes to \<^verbatim>\<open>error_data\<close>.
\<close>

theorem C6_integer_out_of_range:
  "py_int rt ''99999999999'' = Inr 99999999999
   \<and> \<not> in_int32 99999999999
   \<and> valid (validate_row rt [''99999999999'', ''ok'', ''2024/02/29''])
   \<and> valid (validate_csv_row rt ''99999999999,ok,2024/02/29'')
   \<and> valid_predicate
         (eng\<lparr>try_cast_integer := (try_cast_integer eng)(''99999999999'' := None)\<rparr>)
         (Some ''99999999999'', Some ''ok'', Some ''2024/02/29'') = Some False
   \<and> \<not> in_valid_data
         (eng\<lparr>try_cast_integer := (try_cast_integer eng)(''99999999999'' := None)\<rparr>)
         (Some ''99999999999'', Some ''ok'', Some ''2024/02/29'')
   \<and> in_error_data
         (eng\<lparr>try_cast_integer := (try_cast_integer eng)(''99999999999'' := None)\<rparr>)
         (Some ''99999999999'', Some ''ok'', Some ''2024/02/29'')"
proof -
  let ?eng = "eng\<lparr>try_cast_integer := (try_cast_integer eng)(''99999999999'' := None)\<rparr>"
  let ?row = "(Some ''99999999999'', Some ''ok'', Some ''2024/02/29'')"
  have r: "\<not> in_int32 99999999999"
    by (simp add: in_int32_def)
  have v: "valid (validate_row rt [''99999999999'', ''ok'', ''2024/02/29''])"
    by (simp add: validate_row_eleven_nines accept_def)
  then have l: "valid (validate_csv_row rt ''99999999999,ok,2024/02/29'')"
    by (simp add: validate_csv_row_def reader_next_eleven_nines)
  have p: "valid_predicate ?eng ?row = Some False"
    by (simp add: valid_predicate_present)
  then have q: "\<not> in_valid_data ?eng ?row" and e: "in_error_data ?eng ?row"
    by (simp_all add: in_valid_data_def in_error_data_def sql_not_def)
  from py_int_eleven_nines [of rt] r v l p q e show ?thesis
    by blast
qed

end
